theory Spec2Isabelle
  imports Complex_Main "HOL-Library.Word" "HOL-Library.Log_Nat"
begin

section \<open>JavaScript values\<close>

text \<open>
  A JavaScript string is a sequence of UTF-16 code units. Literals of the source are
  written \<open>str ''...''\<close>.
\<close>

type_synonym js_string = "nat list"

definition str :: "string \<Rightarrow> js_string" where
  "str s = map of_char s"

text \<open>The code points removed by \<open>String.prototype.trim\<close>: WhiteSpace and LineTerminator.\<close>

definition isWhiteSpace :: "nat \<Rightarrow> bool" where
  "isWhiteSpace c \<longleftrightarrow>
     c \<in> {9, 10, 11, 12, 13, 32, 160, 5760, 8232, 8233, 8239, 8287, 12288, 65279}
     \<or> (8192 \<le> c \<and> c \<le> 8202)"

definition trim :: "js_string \<Rightarrow> js_string" where
  "trim s = rev (dropWhile isWhiteSpace (rev (dropWhile isWhiteSpace s)))"

text \<open>\<open>xs[i]\<close>: \<open>undefined\<close> (here \<open>None\<close>) outside the array.\<close>

definition js_index :: "'a list \<Rightarrow> int \<Rightarrow> 'a option" where
  "js_index xs i = (if 0 \<le> i \<and> i < int (length xs) then Some (xs ! nat i) else None)"

text \<open>\<open>xs.slice(0, end)\<close> for an integer \<open>end\<close>: a negative \<open>end\<close> counts from the back.\<close>

definition slice0 :: "'a list \<Rightarrow> int \<Rightarrow> 'a list" where
  "slice0 xs e =
     (let len = int (length xs);
          final = (if e < 0 then max (len + e) 0 else min e len)
      in take (nat final) xs)"

text \<open>\<open>Math.round\<close>: the nearest integer, a tie going up.\<close>

definition js_round :: "rat \<Rightarrow> int" where
  "js_round q = \<lfloor>q + 1 / 2\<rfloor>"

text \<open>
  The conversion a \<open>Uint8ClampedArray\<close> applies to a stored number: clamped to
  0..255, rounded to the nearest integer, a tie going to the even one.
\<close>

definition ToUint8Clamp :: "rat \<Rightarrow> 8 word" where
  "ToUint8Clamp q =
     (if q \<le> 0 then 0
      else if 255 \<le> q then 255
      else let f = \<lfloor>q\<rfloor> in
        if of_int f + 1 / 2 < q then word_of_int (f + 1)
        else if q < of_int f + 1 / 2 then word_of_int f
        else if even f then word_of_int f else word_of_int (f + 1))"

text \<open>What a \<open>throw\<close> carries, as far as \<open>err instanceof Error ? err.message : ...\<close> looks.\<close>

datatype thrown = ErrorInstance js_string | OtherValue

datatype js_error = TypeError

text \<open>
  A handler that throws part-way has already queued the state updates before the
  throw: \<open>Inl\<close> carries the error and the state with those updates.
\<close>

type_synonym 'a outcome = "(js_error \<times> 'a) + 'a"

definition after :: "'a outcome \<Rightarrow> 'a" where
  "after r = (case r of Inl (e, s) \<Rightarrow> s | Inr s \<Rightarrow> s)"


section \<open>JavaScript numbers\<close>

text \<open>
  A number is an IEEE 754 binary64 value, modelled by the rational it denotes. \<open>fl q\<close>
  is the double nearest to \<open>q\<close>, a tie going to the even significand (53 bits, gradual
  underflow below \<open>2 powi (- 1022)\<close>). \<open>binade q\<close> is the exponent \<open>e\<close> with
  \<open>2 powi e \<le> q < 2 powi (e + 1)\<close>. The operators \<open>+ - * /\<close> on \<open>double\<close> round
  their exact result; comparisons are exact. Overflow to Infinity, NaN, the sign of zero
  and division by zero are outside the model.
\<close>

definition binade :: "rat \<Rightarrow> int" where
  "binade q =
     (let n = fst (quotient_of q); d = snd (quotient_of q);
          k = bitlen n - bitlen d
      in if 2 powi k \<le> q then k else k - 1)"

definition round_even :: "rat \<Rightarrow> int" where
  "round_even x =
     (let f = \<lfloor>x\<rfloor> in
        if of_int f + 1 / 2 < x then f + 1
        else if x < of_int f + 1 / 2 then f
        else if even f then f else f + 1)"

definition fl :: "rat \<Rightarrow> rat" where
  "fl q =
     (if q = 0 then 0
      else let u = 2 powi (max (binade \<bar>q\<bar>) (- 1022) - 52)
           in of_int (round_even (q / u)) * u)"

typedef double = "range fl"
  morphisms value_of Abs_double
  by (rule exI [of _ "fl 0"]) simp

setup_lifting type_definition_double

text \<open>\<open>D q\<close>: the number a decimal literal or \<open>parseFloat\<close> gives for \<open>q\<close>.\<close>

lift_definition D :: "rat \<Rightarrow> double" is fl
  by simp

instantiation double :: "{zero, one, plus, minus, uminus, times, inverse, linorder, equal}"
begin

lift_definition zero_double :: double is "fl 0"
  by simp

lift_definition one_double :: double is "fl 1"
  by simp

lift_definition plus_double :: "double \<Rightarrow> double \<Rightarrow> double" is "\<lambda>a b. fl (a + b)"
  by simp

lift_definition minus_double :: "double \<Rightarrow> double \<Rightarrow> double" is "\<lambda>a b. fl (a - b)"
  by simp

lift_definition uminus_double :: "double \<Rightarrow> double" is "\<lambda>a. fl (- a)"
  by simp

lift_definition times_double :: "double \<Rightarrow> double \<Rightarrow> double" is "\<lambda>a b. fl (a * b)"
  by simp

lift_definition divide_double :: "double \<Rightarrow> double \<Rightarrow> double" is "\<lambda>a b. fl (a / b)"
  by simp

lift_definition inverse_double :: "double \<Rightarrow> double" is "\<lambda>a. fl (1 / a)"
  by simp

lift_definition less_eq_double :: "double \<Rightarrow> double \<Rightarrow> bool" is "(\<le>)" .

lift_definition less_double :: "double \<Rightarrow> double \<Rightarrow> bool" is "(<)" .

lift_definition equal_double :: "double \<Rightarrow> double \<Rightarrow> bool" is "(=)" .

instance
  by standard (transfer; auto)+

end


section \<open>The posterize loop of applyFilterToCanvas (index.tsx)\<close>

text \<open>
  The arithmetic of this loop is read exactly, on rationals: its intermediate values are
  a byte, a byte divided by 85, an integer from 0 to 3 and that integer times 85.
\<close>

definition levels :: rat where
  "levels = 4"

definition step_size :: rat where
  "step_size = 255 / (levels - 1)"

text \<open>\<open>Math.round(c / step) * step\<close>, stored back into the clamped byte array.\<close>

definition quantize :: "8 word \<Rightarrow> 8 word" where
  "quantize c = ToUint8Clamp (of_int (js_round (of_nat (unat c) / step_size)) * step_size)"

text \<open>
  \<open>buf[j] = Math.round(buf[j] / step) * step\<close>. A write outside a typed array is
  ignored.
\<close>

definition store_quantized :: "8 word list \<Rightarrow> nat \<Rightarrow> 8 word list" where
  "store_quantized buf j = (if j < length buf then buf[j := quantize (buf ! j)] else buf)"

function posterize_loop :: "8 word list \<Rightarrow> nat \<Rightarrow> 8 word list" where
  "posterize_loop buf i =
     (if i < length buf
      then posterize_loop
             (store_quantized (store_quantized (store_quantized buf i) (i + 1)) (i + 2)) (i + 4)
      else buf)"
  by pat_completeness auto
termination
  by (relation "measure (\<lambda>(buf, i). length buf - i)") (auto simp: store_quantized_def)

definition posterize :: "8 word list \<Rightarrow> 8 word list" where
  "posterize buf = posterize_loop buf 0"

declare posterize_loop.simps [simp del]

text \<open>The \<open>switch\<close> that picks the built-in filter string.\<close>

definition cssFilter :: "js_string \<Rightarrow> js_string" where
  "cssFilter f =
     (if f = str ''grayscale'' then str ''grayscale(100%)''
      else if f = str ''sepia'' then str ''sepia(100%)''
      else if f = str ''vintage'' then str ''sepia(70%) contrast(110%) brightness(90%)''
      else if f = str ''invert'' then str ''invert(100%)''
      else if f = str ''glow'' then str ''brightness(1.2) saturate(1.3) contrast(1.05)''
      else if f = str ''sketch'' then str ''grayscale(1) contrast(150%) brightness(110%)''
      else if f = str ''blur'' then str ''blur(4px)''
      else if f = str ''sharpen'' then str ''contrast(140%) saturate(110%)''
      else str ''none'')"

text \<open>
  applyFilterToCanvas on the pixels of the canvas. The drawing primitives belong to the
  browser and are parameters: \<open>drawImage c\<close> is the buffer after \<open>ctx.drawImage\<close>
  under \<open>ctx.filter = c\<close>, \<open>fillRect\<close> paints the radial gradient of the vignette.
\<close>

definition applyFilterToCanvas ::
  "(js_string \<Rightarrow> 8 word list) \<Rightarrow> (8 word list \<Rightarrow> 8 word list) \<Rightarrow> js_string \<Rightarrow> 8 word list" where
  "applyFilterToCanvas drawImage fillRect f =
     (let px = drawImage (cssFilter f)
      in if f = str ''vignette'' then fillRect px
         else if f = str ''posterize'' then posterize px
         else px)"


section \<open>The browser's object URLs\<close>

text \<open>
  \<open>URL.createObjectURL\<close> hands out a fresh URL and keeps it alive until
  \<open>URL.revokeObjectURL\<close>. URLs are numbered; \<open>objectUrls\<close> is the set of those
  alive.
\<close>

record browser =
  objectUrls :: "nat set"
  nextUrl :: nat

definition createObjectURL :: "'a browser_scheme \<Rightarrow> nat \<times> 'a browser_scheme" where
  "createObjectURL s =
     (nextUrl s, s\<lparr>objectUrls := insert (nextUrl s) (objectUrls s), nextUrl := nextUrl s + 1\<rparr>)"

definition revokeObjectURL :: "nat \<Rightarrow> 'a browser_scheme \<Rightarrow> 'a browser_scheme" where
  "revokeObjectURL u s = s\<lparr>objectUrls := objectUrls s - {u}\<rparr>"


section \<open>The state of App (index.tsx)\<close>

record jsfile =
  file_name :: js_string
  file_type :: js_string

record HistoryState =
  imageUrl :: js_string
  filter_name :: js_string

record zoom_state =
  scale :: double
  pan_x :: double
  pan_y :: double

definition zoom_reset :: zoom_state where
  "zoom_reset = \<lparr>scale = 1, pan_x = 0, pan_y = 0\<rparr>"

text \<open>
  A callback that is registered and has not run yet, with the values its closure
  captured: the \<open>onload\<close> of handleImageChange (the object URL in \<open>img.src\<close>), the
  \<open>onload\<close> of handleFilterClick (the filter, the \<open>history\<close> and \<open>historyIndex\<close>
  of the render that handled the click, the object URL), and the rest of
  handleGenerateClick behind its first \<open>await\<close>.
\<close>

datatype pending_callback =
    UploadOnload nat
  | FilterOnload js_string "HistoryState list" int nat
  | GenerateCall

text \<open>
  The \<open>useState\<close> values of App (\<open>baseImage\<close> to \<open>isPanning\<close>), the ref
  \<open>lastMousePosRef\<close>, the callbacks that are pending and the number of
  \<open>mousemove\<close>/\<open>mouseup\<close> listener pairs on the document.
\<close>

record app = browser +
  baseImage :: "jsfile option"
  editedImageUrl :: "js_string option"
  prompt :: js_string
  isLoading :: bool
  error :: "js_string option"
  activeFilter :: js_string
  history :: "HistoryState list"
  historyIndex :: int
  zoom :: zoom_state
  isPanning :: bool
  lastMousePos :: "double \<times> double"
  pending :: "pending_callback list"
  panListeners :: nat

definition initial :: app where
  "initial = \<lparr>objectUrls = {}, nextUrl = 0,
     baseImage = None, editedImageUrl = None, prompt = [], isLoading = False, error = None,
     activeFilter = str ''none'', history = [], historyIndex = - 1, zoom = zoom_reset,
     isPanning = False, lastMousePos = (0, 0), pending = [], panListeners = 0\<rparr>"

definition currentImageState :: "app \<Rightarrow> HistoryState option" where
  "currentImageState s = js_index (history s) (historyIndex s)"

definition canUndo :: "app \<Rightarrow> bool" where
  "canUndo s \<longleftrightarrow> historyIndex s > 0"

definition canRedo :: "app \<Rightarrow> bool" where
  "canRedo s \<longleftrightarrow> historyIndex s < int (length (history s)) - 1"


section \<open>Upload, filter, undo, redo, reset (index.tsx)\<close>

text \<open>
  A handler is a closure of one render. What it reads of the state (\<open>baseImage\<close>,
  \<open>activeFilter\<close>, \<open>history\<close>, \<open>historyIndex\<close>, \<open>canUndo\<close>, \<open>zoom.scale\<close>, ...) are
  the values of that render, the argument \<open>r\<close>; what it writes with a setter is queued
  and lands on the state as it is by then, the argument \<open>s\<close>. A setter given a value
  overwrites; a setter given a function (\<open>setZoom(prev => ...)\<close>) reads \<open>s\<close>. Refs,
  object URLs and listeners are read and written at once, on \<open>s\<close>.
\<close>

text \<open>
  \<open>handleImageChange\<close>: \<open>fileopt\<close> is \<open>e.target.files?.[0]\<close>, \<open>ctx\<close> tells whether
  \<open>canvas.getContext('2d')\<close> gave a context. It reads nothing of the state.
\<close>

definition handleImageChange :: "jsfile option \<Rightarrow> bool \<Rightarrow> app \<Rightarrow> app" where
  "handleImageChange fileopt ctx s =
     (case fileopt of
        None \<Rightarrow> s
      | Some file \<Rightarrow>
          let s1 = s\<lparr>baseImage := Some file, editedImageUrl := None, error := None,
                     zoom := zoom_reset\<rparr>
          in if \<not> ctx then s1
             else let (u, s2) = createObjectURL s1
                  in s2\<lparr>pending := pending s2 @ [UploadOnload u]\<rparr>)"

text \<open>Its \<open>img.onload\<close>; \<open>dataUrl\<close> is what \<open>canvas.toDataURL\<close> returned.\<close>

definition handleImageChange_onload :: "nat \<Rightarrow> js_string \<Rightarrow> app \<Rightarrow> app" where
  "handleImageChange_onload u dataUrl s =
     revokeObjectURL u
       (s\<lparr>history := [\<lparr>imageUrl = dataUrl, filter_name = str ''none''\<rparr>],
          historyIndex := 0, activeFilter := str ''none''\<rparr>)"

definition handleFilterClick :: "js_string \<Rightarrow> bool \<Rightarrow> app \<Rightarrow> app \<Rightarrow> app" where
  "handleFilterClick f ctx r s =
     (if baseImage r = None \<or> activeFilter r = f then s
      else let s1 = s\<lparr>activeFilter := f, zoom := zoom_reset\<rparr>
           in if \<not> ctx then s1
              else let (u, s2) = createObjectURL s1
                   in s2\<lparr>pending := pending s2 @ [FilterOnload f (history r) (historyIndex r) u]\<rparr>)"

text \<open>
  Its \<open>img.onload\<close>, with the captured filter \<open>f\<close>, history \<open>h\<close> and index \<open>i\<close>;
  \<open>dataUrl\<close> is what \<open>canvas.toDataURL\<close> returned after applyFilterToCanvas.
\<close>

definition handleFilterClick_onload ::
  "js_string \<Rightarrow> HistoryState list \<Rightarrow> int \<Rightarrow> nat \<Rightarrow> js_string \<Rightarrow> app \<Rightarrow> app" where
  "handleFilterClick_onload f h i u dataUrl s =
     (let newHistory = slice0 h (i + 1) @ [\<lparr>imageUrl = dataUrl, filter_name = f\<rparr>]
      in revokeObjectURL u
           (s\<lparr>history := newHistory, historyIndex := int (length newHistory) - 1\<rparr>))"

definition handleUndo :: "app \<Rightarrow> app \<Rightarrow> app outcome" where
  "handleUndo r s =
     (if canUndo r
      then let newIndex = historyIndex r - 1;
               s1 = s\<lparr>historyIndex := newIndex\<rparr>
           in (case js_index (history r) newIndex of
                 None \<Rightarrow> Inl (TypeError, s1)
               | Some e \<Rightarrow> Inr (s1\<lparr>activeFilter := filter_name e, zoom := zoom_reset\<rparr>))
      else Inr s)"

definition handleRedo :: "app \<Rightarrow> app \<Rightarrow> app outcome" where
  "handleRedo r s =
     (if canRedo r
      then let newIndex = historyIndex r + 1;
               s1 = s\<lparr>historyIndex := newIndex\<rparr>
           in (case js_index (history r) newIndex of
                 None \<Rightarrow> Inl (TypeError, s1)
               | Some e \<Rightarrow> Inr (s1\<lparr>activeFilter := filter_name e, zoom := zoom_reset\<rparr>))
      else Inr s)"

definition handleReset :: "app \<Rightarrow> app" where
  "handleReset s =
     s\<lparr>baseImage := None, editedImageUrl := None, prompt := [], error := None,
       activeFilter := str ''none'', history := [], historyIndex := - 1, zoom := zoom_reset\<rparr>"


section \<open>The generate call (index.tsx)\<close>

record blob =
  data :: "js_string option"
  mimeType :: "js_string option"

record part =
  inlineData :: "blob option"
  part_text :: "js_string option"

text \<open>
  How everything behind the first \<open>await\<close> of the \<open>try\<close> block ends: something was
  thrown before a response arrived (\<open>Rejected\<close>); a response arrived on which
  \<open>response.candidates[0].content.parts\<close> or its \<open>length\<close> cannot be read, so the
  access throws a TypeError with the engine's message (\<open>NoParts\<close>); or the parts.
\<close>

datatype api_result = Rejected thrown | NoParts js_string | Parts "part list"

text \<open>A template literal prints \<open>undefined\<close> for a missing value.\<close>

definition template :: "js_string option \<Rightarrow> js_string" where
  "template v = (case v of None \<Rightarrow> str ''undefined'' | Some t \<Rightarrow> t)"

definition data_url :: "blob \<Rightarrow> js_string" where
  "data_url b = str ''data:'' @ template (mimeType b) @ str '';base64,'' @ template (data b)"

text \<open>
  \<open>for (let i = parts.length - 1; i >= 0; i--)\<close>, with \<open>n = i + 1\<close>: the URL handed to
  \<open>setEditedImageUrl\<close> before the \<open>break\<close>, or \<open>None\<close> when the loop runs out.
\<close>

fun scan_parts :: "part list \<Rightarrow> nat \<Rightarrow> js_string option" where
  "scan_parts parts 0 = None"
| "scan_parts parts (Suc i) =
     (case inlineData (parts ! i) of
        Some b \<Rightarrow> Some (data_url b)
      | None \<Rightarrow> scan_parts parts i)"

definition errorMessage :: "thrown \<Rightarrow> js_string" where
  "errorMessage err =
     (case err of ErrorInstance m \<Rightarrow> m | OtherValue \<Rightarrow> str ''An unexpected error occurred.'')"

definition catch_block :: "thrown \<Rightarrow> app \<Rightarrow> app" where
  "catch_block err s = s\<lparr>error := Some (str ''Failed to generate image. '' @ errorMessage err)\<rparr>"

text \<open>handleGenerateClick up to its first \<open>await\<close>.\<close>

definition handleGenerateClick :: "app \<Rightarrow> app \<Rightarrow> app" where
  "handleGenerateClick r s =
     (if baseImage r = None \<or> currentImageState r = None \<or> trim (prompt r) = []
      then s\<lparr>error := Some (str ''Please upload an image and enter a prompt.'')\<rparr>
      else s\<lparr>isLoading := True, error := None, editedImageUrl := None,
             pending := pending s @ [GenerateCall]\<rparr>)"

text \<open>
  The rest of the \<open>try\<close>, the \<open>catch\<close> and the \<open>finally\<close>: it only calls setters
  with values.
\<close>

definition handleGenerateClick_resume :: "api_result \<Rightarrow> app \<Rightarrow> app" where
  "handleGenerateClick_resume res s =
     (let s1 = (case res of
                  Rejected err \<Rightarrow> catch_block err s
                | NoParts m \<Rightarrow> catch_block (ErrorInstance m) s
                | Parts parts \<Rightarrow>
                    (case scan_parts parts (length parts) of
                       Some url \<Rightarrow> s\<lparr>editedImageUrl := Some url, zoom := zoom_reset\<rparr>
                     | None \<Rightarrow>
                         s\<lparr>error := Some (str
                           ''No image was generated. Please try a different prompt.'')\<rparr>))
      in s1\<lparr>isLoading := False\<rparr>)"


section \<open>Zoom and pan (index.tsx)\<close>

text \<open>setZoomLevel clamps its argument and updates \<open>prev\<close>, the state as it is.\<close>

definition setZoomLevel :: "double \<Rightarrow> app \<Rightarrow> app" where
  "setZoomLevel newScale s =
     (let clampedScale = max 1 (min newScale (D 10))
      in s\<lparr>zoom := (if clampedScale = 1 then \<lparr>scale = 1, pan_x = 0, pan_y = 0\<rparr>
                    else (zoom s)\<lparr>scale := clampedScale\<rparr>)\<rparr>)"

definition handleZoomButtons :: "double \<Rightarrow> app \<Rightarrow> app \<Rightarrow> app" where
  "handleZoomButtons delta r s = setZoomLevel (scale (zoom r) + delta) s"

definition handleScaleChange :: "double \<Rightarrow> app \<Rightarrow> app" where
  "handleScaleChange newScale s = setZoomLevel newScale s"

definition handleWheel :: "double \<Rightarrow> app \<Rightarrow> app \<Rightarrow> app" where
  "handleWheel deltaY r s =
     (let zoomAmount = - deltaY * D (2 / 1000)
      in setZoomLevel (scale (zoom r) + zoomAmount) s)"

text \<open>
  handleMouseDown at \<open>(clientX, clientY)\<close>; \<open>onImage\<close> is
  \<open>e.target instanceof HTMLImageElement\<close>. Each call that passes the guard adds one
  \<open>mousemove\<close> and one \<open>mouseup\<close> listener to the document.
\<close>

definition handleMouseDown :: "double \<Rightarrow> double \<Rightarrow> bool \<Rightarrow> app \<Rightarrow> app \<Rightarrow> app" where
  "handleMouseDown clientX clientY onImage r s =
     (if scale (zoom r) \<le> 1 \<or> \<not> onImage then s
      else s\<lparr>lastMousePos := (clientX, clientY), isPanning := True,
             panListeners := panListeners s + 1\<rparr>)"

text \<open>The \<open>mousemove\<close> listener: it reads the ref and \<open>prev\<close> only.\<close>

definition handleMouseMove :: "double \<Rightarrow> double \<Rightarrow> app \<Rightarrow> app" where
  "handleMouseMove clientX clientY s =
     (let dx = clientX - fst (lastMousePos s);
          dy = clientY - snd (lastMousePos s);
          prev = zoom s
      in s\<lparr>lastMousePos := (clientX, clientY),
           zoom := prev\<lparr>pan_x := pan_x prev + dx / scale prev,
                        pan_y := pan_y prev + dy / scale prev\<rparr>\<rparr>)"

text \<open>Every registered \<open>mouseup\<close> listener removes its own pair of listeners.\<close>

definition handleMouseUp :: "app \<Rightarrow> app" where
  "handleMouseUp s = s\<lparr>isPanning := False, panListeners := 0\<rparr>"


section \<open>Events and renders (index.tsx)\<close>

text \<open>
  The program is in a pair of states: \<open>rendered\<close>, the state of the last render, whose
  closures the event handlers are, and \<open>current\<close>, the state with every queued update
  applied. Only the \<open>useState\<close> values of \<open>rendered\<close> are ever read.

  The updates of a discrete event (click, change, mousedown, mouseup) are rendered
  before the next event, without the updates that an \<open>onload\<close>, a resumed \<open>await\<close>, a
  wheel or a \<open>mousemove\<close> has queued and that are not rendered yet: \<open>discrete\<close> applies
  the handler to both states. The updates of those other callbacks are rendered later,
  at a time of React's choosing: \<open>deferred\<close> leaves \<open>rendered\<close> as it is, and \<open>Render\<close>
  is the event of React rendering the current state. (React may also render some of
  the queued updates and leave others for later; what is proved below for all runs does
  not depend on what \<open>rendered\<close> holds, or only on what \<open>discrete\<close> puts there.) The
  root is made with \<open>createRoot\<close>, so the updates of one handler or callback are applied
  together.

  \<open>ImageLoaded k dataUrl\<close> runs the \<open>k\<close>th pending \<open>onload\<close>,
  \<open>GenerateSettled k res\<close> resumes the \<open>k\<close>th pending generate call; an event that
  names no such callback changes nothing. A document \<open>mousemove\<close> or \<open>mouseup\<close> runs
  every listener registered for it. handleDownload writes no state and is left out.
\<close>

record 'a sys =
  rendered :: 'a
  current :: 'a

definition synced :: "'a \<Rightarrow> 'a sys" where
  "synced s = \<lparr>rendered = s, current = s\<rparr>"

definition discrete :: "('a \<Rightarrow> 'a \<Rightarrow> 'a) \<Rightarrow> 'a sys \<Rightarrow> 'a sys" where
  "discrete h \<sigma> = \<lparr>rendered = h (rendered \<sigma>) (rendered \<sigma>), current = h (rendered \<sigma>) (current \<sigma>)\<rparr>"

definition deferred :: "('a \<Rightarrow> 'a \<Rightarrow> 'a) \<Rightarrow> 'a sys \<Rightarrow> 'a sys" where
  "deferred h \<sigma> = \<sigma>\<lparr>current := h (rendered \<sigma>) (current \<sigma>)\<rparr>"

definition render :: "'a sys \<Rightarrow> 'a sys" where
  "render \<sigma> = \<sigma>\<lparr>rendered := current \<sigma>\<rparr>"

datatype event =
    ImageChange "jsfile option" bool
  | FilterClick js_string bool
  | Undo
  | Redo
  | Reset
  | PromptChange js_string
  | GenerateClick
  | GenerateSettled nat api_result
  | ImageLoaded nat js_string
  | ZoomButton double
  | ZoomSlider double
  | ZoomReset
  | Wheel double
  | MouseDown double double bool
  | MouseMove double double
  | MouseUp
  | Render

definition remove_pending :: "nat \<Rightarrow> app \<Rightarrow> app" where
  "remove_pending k s = s\<lparr>pending := take k (pending s) @ drop (Suc k) (pending s)\<rparr>"

definition image_loaded :: "nat \<Rightarrow> js_string \<Rightarrow> app \<Rightarrow> app" where
  "image_loaded k dataUrl s =
     (if k < length (pending s)
      then (case pending s ! k of
              UploadOnload u \<Rightarrow> handleImageChange_onload u dataUrl (remove_pending k s)
            | FilterOnload f h i u \<Rightarrow>
                handleFilterClick_onload f h i u dataUrl (remove_pending k s)
            | GenerateCall \<Rightarrow> s)
      else s)"

definition generate_settled :: "nat \<Rightarrow> api_result \<Rightarrow> app \<Rightarrow> app" where
  "generate_settled k res s =
     (if k < length (pending s) \<and> pending s ! k = GenerateCall
      then handleGenerateClick_resume res (remove_pending k s)
      else s)"

definition mousemove_listeners :: "double \<Rightarrow> double \<Rightarrow> app \<Rightarrow> app" where
  "mousemove_listeners clientX clientY s = (handleMouseMove clientX clientY ^^ panListeners s) s"

definition mouseup_listeners :: "app \<Rightarrow> app" where
  "mouseup_listeners s = (if panListeners s = 0 then s else handleMouseUp s)"

fun step :: "event \<Rightarrow> app sys \<Rightarrow> app sys" where
  "step (ImageChange fileopt ctx) \<sigma> = discrete (\<lambda>r. handleImageChange fileopt ctx) \<sigma>"
| "step (FilterClick f ctx) \<sigma> = discrete (handleFilterClick f ctx) \<sigma>"
| "step Undo \<sigma> = discrete (\<lambda>r s. after (handleUndo r s)) \<sigma>"
| "step Redo \<sigma> = discrete (\<lambda>r s. after (handleRedo r s)) \<sigma>"
| "step Reset \<sigma> = discrete (\<lambda>r. handleReset) \<sigma>"
| "step (PromptChange p) \<sigma> = discrete (\<lambda>r s. s\<lparr>prompt := p\<rparr>) \<sigma>"
| "step GenerateClick \<sigma> = discrete handleGenerateClick \<sigma>"
| "step (GenerateSettled k res) \<sigma> = deferred (\<lambda>r. generate_settled k res) \<sigma>"
| "step (ImageLoaded k dataUrl) \<sigma> = deferred (\<lambda>r. image_loaded k dataUrl) \<sigma>"
| "step (ZoomButton delta) \<sigma> = discrete (handleZoomButtons delta) \<sigma>"
| "step (ZoomSlider newScale) \<sigma> = discrete (\<lambda>r. handleScaleChange newScale) \<sigma>"
| "step ZoomReset \<sigma> = discrete (\<lambda>r s. s\<lparr>zoom := \<lparr>scale = 1, pan_x = 0, pan_y = 0\<rparr>\<rparr>) \<sigma>"
| "step (Wheel deltaY) \<sigma> = deferred (handleWheel deltaY) \<sigma>"
| "step (MouseDown clientX clientY onImage) \<sigma> =
     discrete (handleMouseDown clientX clientY onImage) \<sigma>"
| "step (MouseMove clientX clientY) \<sigma> = deferred (\<lambda>r. mousemove_listeners clientX clientY) \<sigma>"
| "step MouseUp \<sigma> = discrete (\<lambda>r. mouseup_listeners) \<sigma>"
| "step Render \<sigma> = render \<sigma>"

definition run :: "event list \<Rightarrow> app sys \<Rightarrow> app sys" where
  "run evs \<sigma> = foldl (\<lambda>t e. step e t) \<sigma> evs"

definition start :: "app sys" where
  "start = synced initial"


section \<open>The variant without filters (part_002; part_000 has the same two handlers)\<close>

text \<open>
  Here handleImageChange keeps the object URL itself in \<open>originalImageUrl\<close>, as the
  source of the displayed image; the variant has no canvas, no \<open>onload\<close> and no call of
  \<open>URL.revokeObjectURL\<close>.
\<close>

record p2_app = browser +
  p2_originalImage :: "jsfile option"
  p2_originalImageUrl :: "nat option"
  p2_editedImageUrl :: "js_string option"
  p2_prompt :: js_string
  p2_isLoading :: bool
  p2_error :: "js_string option"
  p2_calls :: nat

definition p2_initial :: p2_app where
  "p2_initial = \<lparr>objectUrls = {}, nextUrl = 0,
     p2_originalImage = None, p2_originalImageUrl = None, p2_editedImageUrl = None,
     p2_prompt = [], p2_isLoading = False, p2_error = None, p2_calls = 0\<rparr>"

definition p2_handleImageChange :: "jsfile option \<Rightarrow> p2_app \<Rightarrow> p2_app" where
  "p2_handleImageChange fileopt s =
     (case fileopt of
        None \<Rightarrow> s
      | Some file \<Rightarrow>
          let (u, s1) = createObjectURL (s\<lparr>p2_originalImage := Some file\<rparr>)
          in s1\<lparr>p2_originalImageUrl := Some u, p2_editedImageUrl := None, p2_error := None\<rparr>)"

definition p2_handleGenerateClick :: "p2_app \<Rightarrow> p2_app \<Rightarrow> p2_app" where
  "p2_handleGenerateClick r s =
     (if p2_originalImage r = None \<or> trim (p2_prompt r) = []
      then s\<lparr>p2_error := Some (str ''Please upload an image and enter a prompt.'')\<rparr>
      else s\<lparr>p2_isLoading := True, p2_error := None, p2_editedImageUrl := None,
             p2_calls := p2_calls s + 1\<rparr>)"

definition p2_handleGenerateClick_resume :: "api_result \<Rightarrow> p2_app \<Rightarrow> p2_app" where
  "p2_handleGenerateClick_resume res s =
     (let failed = (\<lambda>err. s\<lparr>p2_error :=
                      Some (str ''Failed to generate image. '' @ errorMessage err)\<rparr>);
          s1 = (case res of
                  Rejected err \<Rightarrow> failed err
                | NoParts m \<Rightarrow> failed (ErrorInstance m)
                | Parts parts \<Rightarrow>
                    (case scan_parts parts (length parts) of
                       Some url \<Rightarrow> s\<lparr>p2_editedImageUrl := Some url\<rparr>
                     | None \<Rightarrow>
                         s\<lparr>p2_error := Some (str
                           ''No image was generated. Please try a different prompt.'')\<rparr>))
      in s1\<lparr>p2_isLoading := False\<rparr>)"

datatype p2_event =
    P2_ImageChange "jsfile option"
  | P2_PromptChange js_string
  | P2_GenerateClick
  | P2_GenerateSettled api_result
  | P2_Render

definition p2_generate_settled :: "api_result \<Rightarrow> p2_app \<Rightarrow> p2_app" where
  "p2_generate_settled res s =
     (if p2_calls s = 0 then s
      else p2_handleGenerateClick_resume res (s\<lparr>p2_calls := p2_calls s - 1\<rparr>))"

fun p2_step :: "p2_event \<Rightarrow> p2_app sys \<Rightarrow> p2_app sys" where
  "p2_step (P2_ImageChange fileopt) \<sigma> = discrete (\<lambda>r. p2_handleImageChange fileopt) \<sigma>"
| "p2_step (P2_PromptChange p) \<sigma> = discrete (\<lambda>r s. s\<lparr>p2_prompt := p\<rparr>) \<sigma>"
| "p2_step P2_GenerateClick \<sigma> = discrete p2_handleGenerateClick \<sigma>"
| "p2_step (P2_GenerateSettled res) \<sigma> = deferred (\<lambda>r. p2_generate_settled res) \<sigma>"
| "p2_step P2_Render \<sigma> = render \<sigma>"

definition p2_run :: "p2_event list \<Rightarrow> p2_app sys \<Rightarrow> p2_app sys" where
  "p2_run evs \<sigma> = foldl (\<lambda>t e. p2_step e t) \<sigma> evs"


section \<open>The filtered-image pipeline of the variant with a filter effect (part_001)\<close>

text \<open>
  The state that the filter effect and getFilteredImageFile read or write; the other
  state of that App is not touched by them. Both read the values of their render \<open>r\<close>.
\<close>

datatype p1_callback = EffectOnload nat | FilteredOnload nat

datatype 'a promise = Resolved 'a | RejectedWith thrown | Unsettled

record p1_app = browser +
  p1_originalImage :: "jsfile option"
  p1_originalImageUrl :: "js_string option"
  p1_activeFilter :: js_string
  p1_pending :: "p1_callback list"

text \<open>The body of \<open>useEffect(..., [originalImage, activeFilter])\<close>.\<close>

definition p1_filter_effect :: "bool \<Rightarrow> p1_app \<Rightarrow> p1_app \<Rightarrow> p1_app" where
  "p1_filter_effect ctx r s =
     (case p1_originalImage r of
        None \<Rightarrow> s\<lparr>p1_originalImageUrl := None\<rparr>
      | Some file \<Rightarrow>
          if \<not> ctx then s
          else let (u, s1) = createObjectURL s
               in s1\<lparr>p1_pending := p1_pending s1 @ [EffectOnload u]\<rparr>)"

definition p1_filter_effect_onload :: "nat \<Rightarrow> js_string \<Rightarrow> p1_app \<Rightarrow> p1_app" where
  "p1_filter_effect_onload u dataUrl s =
     revokeObjectURL u (s\<lparr>p1_originalImageUrl := Some dataUrl\<rparr>)"

definition getFilteredImageFile ::
  "bool \<Rightarrow> p1_app \<Rightarrow> p1_app \<Rightarrow> jsfile promise \<times> p1_app" where
  "getFilteredImageFile ctx r s =
     (case p1_originalImage r of
        None \<Rightarrow> (RejectedWith (ErrorInstance (str ''No image to filter'')), s)
      | Some file \<Rightarrow>
          if p1_activeFilter r = str ''none'' then (Resolved file, s)
          else if \<not> ctx
          then (RejectedWith (ErrorInstance (str ''Could not get canvas context'')), s)
          else let (u, s1) = createObjectURL s
               in (Unsettled, s1\<lparr>p1_pending := p1_pending s1 @ [FilteredOnload u]\<rparr>))"

text \<open>
  Its \<open>img.onload\<close>: the promise is settled later, by the callback of \<open>canvas.toBlob\<close>,
  which writes no state.
\<close>

definition getFilteredImageFile_onload :: "nat \<Rightarrow> p1_app \<Rightarrow> p1_app" where
  "getFilteredImageFile_onload u s = revokeObjectURL u s"


section \<open>Invariants and example states\<close>

text \<open>
  The index is \<open>-1\<close> exactly when the history is empty, and otherwise points into
  it.
\<close>

definition history_index_valid :: "app \<Rightarrow> bool" where
  "history_index_valid s \<longleftrightarrow>
     (historyIndex s = - 1 \<longleftrightarrow> history s = [])
     \<and> (history s \<noteq> [] \<longrightarrow> 0 \<le> historyIndex s \<and> historyIndex s \<le> int (length (history s)) - 1)"

text \<open>The render shows the history and the index that the state has.\<close>

definition history_rendered :: "app sys \<Rightarrow> bool" where
  "history_rendered \<sigma> \<longleftrightarrow>
     history (rendered \<sigma>) = history (current \<sigma>)
     \<and> historyIndex (rendered \<sigma>) = historyIndex (current \<sigma>)"

text \<open>
  The view transform: the scale lies in 1..10, and at scale 1 the image is not panned.
\<close>

definition zoom_invariant :: "app \<Rightarrow> bool" where
  "zoom_invariant s \<longleftrightarrow>
     1 \<le> scale (zoom s) \<and> scale (zoom s) \<le> D 10
     \<and> (scale (zoom s) = 1 \<longrightarrow> pan_x (zoom s) = 0 \<and> pan_y (zoom s) = 0)"

definition scale_in_range :: "app \<Rightarrow> bool" where
  "scale_in_range s \<longleftrightarrow> 1 \<le> scale (zoom s) \<and> scale (zoom s) \<le> D 10"

text \<open>The events that write the zoom outside a drag: all but the document's mousemove.\<close>

fun writes_zoom_outside_drag :: "event \<Rightarrow> bool" where
  "writes_zoom_outside_drag (MouseMove clientX clientY) = False"
| "writes_zoom_outside_drag e = True"

text \<open>
  The object URLs that the pending callbacks hold in \<open>img.src\<close>; every live URL is
  held by exactly one of them.
\<close>

fun callback_urls :: "pending_callback \<Rightarrow> nat list" where
  "callback_urls (UploadOnload u) = [u]"
| "callback_urls (FilterOnload f h i u) = [u]"
| "callback_urls GenerateCall = []"

definition pending_urls :: "pending_callback list \<Rightarrow> nat list" where
  "pending_urls cbs = concat (map callback_urls cbs)"

definition urls_owned :: "app \<Rightarrow> bool" where
  "urls_owned s \<longleftrightarrow>
     objectUrls s = set (pending_urls (pending s))
     \<and> distinct (pending_urls (pending s))
     \<and> (\<forall>u \<in> objectUrls s. u < nextUrl s)"

text \<open>
  A session used in the examples: an upload, two filters, two undos, every \<open>onload\<close>
  rendered before the next click.
\<close>

definition photo :: jsfile where
  "photo = \<lparr>file_name = str ''cat.png'', file_type = str ''image/png''\<rparr>"

definition three_entries :: "HistoryState list" where
  "three_entries =
     [\<lparr>imageUrl = str ''url0'', filter_name = str ''none''\<rparr>,
      \<lparr>imageUrl = str ''url1'', filter_name = str ''sepia''\<rparr>,
      \<lparr>imageUrl = str ''url2'', filter_name = str ''blur''\<rparr>]"

definition undone_twice :: app where
  "undone_twice =
     current (run [ImageChange (Some photo) True, ImageLoaded 0 (str ''url0''), Render,
          FilterClick (str ''sepia'') True, ImageLoaded 0 (str ''url1''), Render,
          FilterClick (str ''blur'') True, ImageLoaded 0 (str ''url2''), Render,
          Undo, Undo] start)"

text \<open>The same session with a prompt typed in, and two response parts.\<close>

definition prompted :: app where
  "prompted = undone_twice\<lparr>prompt := str ''Add a cat''\<rparr>"

definition image_part :: part where
  "image_part = \<lparr>inlineData = Some \<lparr>data = Some (str ''QUJD''), mimeType = Some (str ''image/png'')\<rparr>,
                  part_text = None\<rparr>"

definition text_part :: part where
  "text_part = \<lparr>inlineData = None, part_text = Some (str ''Here you go'')\<rparr>"

text \<open>
  Zooming in, pressing the mouse on the image, turning the wheel back to scale 1 while
  the button is held, and moving the mouse.
\<close>

definition zoomed_in :: "app sys" where
  "zoomed_in = run [ImageChange (Some photo) True, ImageLoaded 0 (str ''url0''), Render,
     ZoomButton (D (1 / 5))] start"

definition dragging :: "app sys" where
  "dragging = step (MouseDown (D 10) (D 10) True) zoomed_in"

definition drag_then_zoom_out :: "event list" where
  "drag_then_zoom_out =
     [ImageChange (Some photo) True, ImageLoaded 0 (str ''url0''), Render,
      ZoomButton (D (1 / 5)), MouseDown (D 10) (D 10) True, Wheel (D 1000),
      MouseMove (D 15) (D 10)]"

text \<open>
  An upload, a filter and an undo, all rendered; then a second upload whose \<open>onload\<close>
  has run and is not rendered yet when Redo is clicked.
\<close>

definition stale_redo :: "event list" where
  "stale_redo =
     [ImageChange (Some photo) True, ImageLoaded 0 (str ''url0''), Render,
      FilterClick (str ''sepia'') True, ImageLoaded 0 (str ''url1''), Render,
      Undo,
      ImageChange (Some photo) True, ImageLoaded 0 (str ''url2''),
      Redo]"

text \<open>The variant without filters: an upload, a generated image, a second upload.\<close>

definition p2_replaced :: "p2_event list" where
  "p2_replaced = [P2_ImageChange (Some photo), P2_PromptChange (str ''Add a cat''),
     P2_GenerateClick, P2_GenerateSettled (Parts [image_part]), P2_ImageChange (Some photo)]"

text \<open>The variant with a filter effect, an image and the sepia filter chosen.\<close>

definition p1_example :: p1_app where
  "p1_example = \<lparr>objectUrls = {}, nextUrl = 0, p1_originalImage = Some photo,
     p1_originalImageUrl = None, p1_activeFilter = str ''sepia'', p1_pending = []\<rparr>"


section \<open>Lemmas on the posterize loop\<close>

lemma length_store_quantized [simp]: "length (store_quantized buf j) = length buf"
  by (simp add: store_quantized_def)

lemma step_size_eq: "step_size = 85"
  by (simp add: step_size_def levels_def)

lemma js_round_step: "js_round (of_nat n / step_size) = (int n + 42) div 85"
proof -
  have "(of_nat n / 85 + 1 / 2 :: rat) = of_int (2 * int n + 85) / of_int 170"
    by (simp add: field_simps)
  then have "js_round (of_nat n / step_size) = (2 * int n + 85) div 170"
    unfolding js_round_def step_size_eq by (simp only: floor_divide_of_int_eq)
  also have "\<dots> = (2 * int n + 85) div 2 div 85"
    by (simp add: div_mult2_eq)
  also have "(2 * int n + 85) div 2 = int n + 42"
    by simp
  finally show ?thesis .
qed

lemma ToUint8Clamp_levels:
  "ToUint8Clamp (of_int 0 * step_size) = 0" "ToUint8Clamp (of_int 1 * step_size) = 85"
  "ToUint8Clamp (of_int 2 * step_size) = 170" "ToUint8Clamp (of_int 3 * step_size) = 255"
  by (simp_all add: step_size_eq ToUint8Clamp_def)

lemma quantize_levels:
  "(js_round (of_nat (unat c) / step_size), quantize c) \<in> {(0, 0), (1, 85), (2, 170), (3, 255)}"
proof -
  have b: "unat c \<le> 255"
    using unsigned_less [of c, where ?'a = nat] by simp
  define k where "k = js_round (of_nat (unat c) / step_size)"
  have "k = (int (unat c) + 42) div 85"
    unfolding k_def by (rule js_round_step)
  then have "k = 0 \<or> k = 1 \<or> k = 2 \<or> k = 3"
    using b by arith
  then have "(k, ToUint8Clamp (of_int k * step_size)) \<in> {(0, 0), (1, 85), (2, 170), (3, 255)}"
    using ToUint8Clamp_levels by auto
  then show ?thesis
    unfolding quantize_def k_def .
qed

lemma quantize_exact:
  "rat_of_nat (unat (quantize c)) = of_int (js_round (of_nat (unat c) / step_size)) * step_size"
proof -
  define k where "k = js_round (of_nat (unat c) / step_size)"
  have "(k, quantize c) \<in> {(0, 0), (1, 85), (2, 170), (3, 255)}"
    unfolding k_def by (rule quantize_levels)
  then have "rat_of_nat (unat (quantize c)) = of_int k * step_size"
    by (auto simp: step_size_eq)
  then show ?thesis
    unfolding k_def .
qed

lemma length_posterize_loop [simp]: "length (posterize_loop buf i) = length buf"
  by (induction buf i rule: posterize_loop.induct) (subst posterize_loop.simps, simp)

lemma store_quantized_nth:
  "j < length buf \<Longrightarrow>
   store_quantized buf k ! j = (if j = k then quantize (buf ! j) else buf ! j)"
  by (simp add: store_quantized_def)

lemma posterize_loop_nth:
  "i mod 4 = 0 \<Longrightarrow> j < length buf \<Longrightarrow>
   posterize_loop buf i ! j =
     (if i \<le> j \<and> j mod 4 \<noteq> 3 then quantize (buf ! j) else buf ! j)"
proof (induction buf i rule: posterize_loop.induct)
  case (1 buf i)
  show ?case
  proof (cases "i < length buf")
    case False
    with "1.prems" show ?thesis
      by (subst posterize_loop.simps) simp
  next
    case True
    let ?d = "store_quantized (store_quantized (store_quantized buf i) (i + 1)) (i + 2)"
    have m: "(i + 4) mod 4 = 0"
      using "1.prems"(1) by simp
    have j: "j < length ?d"
      using "1.prems"(2) by simp
    have IH: "posterize_loop ?d (i + 4) ! j =
        (if i + 4 \<le> j \<and> j mod 4 \<noteq> 3 then quantize (?d ! j) else ?d ! j)"
      using "1.IH" [OF True m j] .
    have d: "?d ! j =
        (if j = i \<or> j = i + 1 \<or> j = i + 2 then quantize (buf ! j) else buf ! j)"
      using "1.prems"(2) by (simp add: store_quantized_nth)
    have ar: "i \<le> j \<and> j mod 4 \<noteq> 3 \<longleftrightarrow>
        (j = i \<or> j = i + 1 \<or> j = i + 2) \<or> (i + 4 \<le> j \<and> j mod 4 \<noteq> 3)"
      using "1.prems"(1) by arith
    have ex: "\<not> ((j = i \<or> j = i + 1 \<or> j = i + 2) \<and> i + 4 \<le> j)"
      by arith
    have "posterize_loop buf i ! j = posterize_loop ?d (i + 4) ! j"
      using True by (subst posterize_loop.simps) simp
    also have "\<dots> = (if i \<le> j \<and> j mod 4 \<noteq> 3 then quantize (buf ! j) else buf ! j)"
      unfolding IH d using ar ex by auto
    finally show ?thesis .
  qed
qed

lemma posterize_example:
  "posterize [10, 100, 200, 77, 43, 42, 128, 0] = [0, 85, 170, 77, 85, 0, 170, 0]"
  by code_simp


section \<open>Lemmas on the rounding of numbers\<close>

lemma binade_bounds:
  assumes "0 < q"
  shows "2 powi binade q \<le> q \<and> q < 2 powi (binade q + 1)"
proof -
  obtain n d where nd: "quotient_of q = (n, d)"
    by (cases "quotient_of q")
  have d: "0 < d" using nd by (rule quotient_of_denom_pos)
  have q: "q = of_int n / of_int d" using nd by (rule quotient_of_div)
  have n: "0 < n" using assms d q by (simp add: zero_less_divide_iff)
  define bn where "bn = nat (bitlen n)"
  define bd where "bd = nat (bitlen d)"
  have bn: "0 < bn" unfolding bn_def using n by (simp add: bitlen_alt_def)
  have bd: "0 < bd" unfolding bd_def using d by (simp add: bitlen_alt_def)
  have ibn: "bitlen n = int bn" unfolding bn_def using bitlen_nonneg [of n] by simp
  have ibd: "bitlen d = int bd" unfolding bd_def using bitlen_nonneg [of d] by simp
  have nb: "nat (int bn - 1) = bn - 1" "nat (int bd - 1) = bd - 1"
    by simp_all
  have "2 ^ (bn - 1) \<le> n \<and> n < 2 ^ bn"
    using bitlen_bounds [OF n] by (simp only: ibn nb nat_int)
  then have "(of_int (2 ^ (bn - 1)) :: rat) \<le> of_int n" and "(of_int n :: rat) < of_int (2 ^ bn)"
    by (simp_all only: of_int_le_iff of_int_less_iff)
  then have n1: "(2::rat) ^ (bn - 1) \<le> of_int n" and n2: "of_int n < (2::rat) ^ bn"
    by simp_all
  have "2 ^ (bd - 1) \<le> d \<and> d < 2 ^ bd"
    using bitlen_bounds [OF d] by (simp only: ibd nb nat_int)
  then have "(of_int (2 ^ (bd - 1)) :: rat) \<le> of_int d" and "(of_int d :: rat) < of_int (2 ^ bd)"
    by (simp_all only: of_int_le_iff of_int_less_iff)
  then have d1: "(2::rat) ^ (bd - 1) \<le> of_int d" and d2: "of_int d < (2::rat) ^ bd"
    by simp_all
  define k where "k = int bn - int bd"
  have up: "q < 2 powi (k + 1)"
  proof -
    have "q * of_int d = of_int n" using q d by simp
    also have "\<dots> < 2 ^ bn" by (rule n2)
    also have "\<dots> = 2 powi (k + 1) * 2 ^ (bd - 1)"
    proof -
      have "(2::rat) ^ bn = 2 powi (int bn)" by simp
      also have "int bn = (k + 1) + int (bd - 1)" using bd by (simp add: k_def)
      also have "(2::rat) powi \<dots> = 2 powi (k + 1) * 2 powi int (bd - 1)"
        by (rule power_int_add) simp
      finally show ?thesis by simp
    qed
    also have "\<dots> \<le> 2 powi (k + 1) * of_int d"
      using d1 by (intro mult_left_mono) auto
    finally show ?thesis using d by simp
  qed
  have low: "2 powi (k - 1) < q"
  proof -
    have "(2::rat) powi (k - 1) * of_int d < 2 powi (k - 1) * 2 ^ bd"
      using d2 by (intro mult_strict_left_mono) auto
    also have "\<dots> = 2 ^ (bn - 1)"
    proof -
      have "(2::rat) ^ (bn - 1) = 2 powi (int (bn - 1))" by simp
      also have "int (bn - 1) = (k - 1) + int bd" using bn by (simp add: k_def)
      also have "(2::rat) powi \<dots> = 2 powi (k - 1) * 2 powi int bd"
        by (rule power_int_add) simp
      finally show ?thesis by simp
    qed
    also have "\<dots> \<le> of_int n" by (rule n1)
    also have "\<dots> = q * of_int d" using q d by simp
    finally show ?thesis using d by simp
  qed
  have b: "binade q = (if 2 powi k \<le> q then k else k - 1)"
    by (simp add: binade_def nd ibn ibd k_def Let_def)
  show ?thesis
  proof (cases "2 powi k \<le> q")
    case True
    then show ?thesis using up b by simp
  next
    case False
    then show ?thesis using low b by simp
  qed
qed

lemma binade_unique:
  assumes "0 < q" and "2 powi e \<le> q" and "q < 2 powi (e + 1)"
  shows "binade q = e"
proof (rule ccontr)
  assume ne: "binade q \<noteq> e"
  note b = binade_bounds [OF assms(1)]
  show False
  proof (cases "binade q < e")
    case True
    then have "(2::rat) powi (binade q + 1) \<le> 2 powi e"
      by (intro power_int_increasing) auto
    then show False using b assms(2) by linarith
  next
    case False
    with ne have "(2::rat) powi (e + 1) \<le> 2 powi binade q"
      by (intro power_int_increasing) auto
    then show False using b assms(3) by linarith
  qed
qed


lemma round_even_of_int [simp]: "round_even (of_int n) = n"
  by (simp add: round_even_def)

lemma round_even_ge: "of_int m \<le> x \<Longrightarrow> m \<le> round_even x"
proof -
  assume "of_int m \<le> x"
  then have "m \<le> \<lfloor>x\<rfloor>" by (simp add: le_floor_iff)
  then show ?thesis by (simp add: round_even_def Let_def)
qed

lemma round_even_le: "x \<le> of_int m \<Longrightarrow> round_even x \<le> m"
proof (cases "x = of_int m")
  case True
  then show ?thesis by simp
next
  case False
  assume "x \<le> of_int m"
  with False have "x < of_int m" by simp
  then have "\<lfloor>x\<rfloor> < m" by (simp add: floor_less_iff)
  then show ?thesis by (simp add: round_even_def Let_def)
qed

lemma fl_0 [simp]: "fl 0 = 0"
  by (simp add: fl_def)

lemma fl_idem: "fl (fl q) = fl q"
proof (cases "q = 0")
  case True
  then show ?thesis by simp
next
  case False
  define a where "a = \<bar>q\<bar>"
  define e where "e = max (binade a) (- 1022)"
  define u :: rat where "u = 2 powi (e - 52)"
  define n where "n = round_even (q / u)"
  have a: "0 < a" using False by (simp add: a_def)
  have u: "0 < u" by (simp add: u_def)
  have x: "fl q = of_int n * u"
    using False by (simp add: fl_def Let_def a_def e_def u_def n_def)
  have p53: "2 powi (e + 1) = u * 2 ^ 53"
  proof -
    have "e + 1 = (e - 52) + 53" by simp
    also have "(2::rat) powi \<dots> = 2 powi (e - 52) * 2 powi 53"
      by (rule power_int_add) simp
    finally show ?thesis by (simp add: u_def)
  qed
  have p52: "2 powi e = u * 2 ^ 52"
  proof -
    have "e = (e - 52) + 52" by simp
    also have "(2::rat) powi \<dots> = 2 powi (e - 52) * 2 powi 52"
      by (rule power_int_add) simp
    finally show ?thesis by (simp add: u_def)
  qed
  have "a < 2 powi (binade a + 1)" using binade_bounds [OF a] by simp
  also have "\<dots> \<le> 2 powi (e + 1)"
    by (intro power_int_increasing) (simp_all add: e_def)
  finally have "a < u * 2 ^ 53"
    unfolding p53 .
  then have au: "a / u < 2 ^ 53"
    using u by (simp add: field_simps)
  have qa: "\<bar>q / u\<bar> = a / u" using u by (simp add: a_def)
  have hi: "n \<le> 2 ^ 53" "- (2 ^ 53) \<le> n"
  proof -
    have b: "\<bar>q / u\<bar> < 2 ^ 53" using au by (simp only: qa)
    have "q / u \<le> \<bar>q / u\<bar>" by (rule abs_ge_self)
    with b have "q / u \<le> of_int (2 ^ 53)" by simp
    then show "n \<le> 2 ^ 53" unfolding n_def by (rule round_even_le)
    have "- \<bar>q / u\<bar> \<le> q / u" by (rule abs_ge_minus_self [THEN minus_le_iff [THEN iffD1]])
    with b have "of_int (- (2 ^ 53)) \<le> q / u" by simp
    then show "- (2 ^ 53) \<le> n" unfolding n_def by (rule round_even_ge)
  qed
  show ?thesis
  proof (cases "n = 0")
    case True
    then show ?thesis by (simp add: x)
  next
    case n0: False
    define w where "w = \<bar>of_int n * u\<bar>"
    have w: "w = of_int \<bar>n\<bar> * u" using u by (simp add: w_def abs_mult)
    have pos: "0 < w" using n0 u by (simp add: w_def)
    have same: "fl (of_int n * u) = of_int n * u" if "max (binade w) (- 1022) = e"
    proof -
      have "of_int n * u \<noteq> 0" using n0 u by simp
      moreover have "round_even (of_int n * u / u) = n" using u by simp
      ultimately show ?thesis
        using that by (simp add: fl_def Let_def w_def [symmetric] u_def [symmetric])
    qed
    show ?thesis
    proof (cases "\<bar>n\<bar> = 2 ^ 53")
      case True
      have v: "w = 2 powi (e + 1)"
        unfolding w p53 by (simp add: True)
      have "binade w = e + 1"
      proof (rule binade_unique [OF pos])
        show "2 powi (e + 1) \<le> w" by (simp only: v)
        have "(2::rat) powi (e + 1) < 2 powi (e + 1 + 1)"
          by (intro power_int_strict_increasing) simp_all
        then show "w < 2 powi (e + 1 + 1)" by (simp only: v)
      qed
      moreover have "- 1022 \<le> e" by (simp add: e_def)
      ultimately have k: "max (binade w) (- 1022) - 52 = e - 51"
        by simp
      have u2: "2 powi (e - 51) = u * 2"
      proof -
        have "e - 51 = (e - 52) + 1" by simp
        also have "(2::rat) powi \<dots> = 2 powi (e - 52) * 2 powi 1"
          by (rule power_int_add) simp
        finally show ?thesis by (simp add: u_def)
      qed
      obtain m where m: "n = 2 * m"
      proof (cases "0 \<le> n")
        case True
        with \<open>\<bar>n\<bar> = 2 ^ 53\<close> have "n = 2 * 2 ^ 52" by simp
        then show ?thesis by (rule that)
      next
        case False
        with \<open>\<bar>n\<bar> = 2 ^ 53\<close> have "n = 2 * (- (2 ^ 52))" by simp
        then show ?thesis by (rule that)
      qed
      have nz: "of_int n * u \<noteq> 0" using n0 u by simp
      have "of_int n * u / (u * 2) = of_int m" using u by (simp add: m)
      then have "round_even (of_int n * u / (u * 2)) = m" by simp
      then have "fl (of_int n * u) = of_int m * (u * 2)"
        using nz k by (simp add: fl_def Let_def w_def [symmetric] u2)
      then show ?thesis by (simp add: x m)
    next
      case False
      with hi have lt: "\<bar>n\<bar> < 2 ^ 53" by linarith
      have up: "w < 2 powi (e + 1)"
      proof -
        have "rat_of_int \<bar>n\<bar> < of_int (2 ^ 53)" using lt by (simp only: of_int_less_iff)
        then have "u * rat_of_int \<bar>n\<bar> < u * of_int (2 ^ 53)"
          using u by (intro mult_strict_left_mono)
        then show ?thesis unfolding p53 w by (simp add: mult.commute)
      qed
      have b_le: "binade w \<le> e"
      proof (rule ccontr)
        assume "\<not> binade w \<le> e"
        then have "(2::rat) powi (e + 1) \<le> 2 powi binade w"
          by (intro power_int_increasing) simp_all
        then show False using binade_bounds [OF pos] up by linarith
      qed
      have k: "max (binade w) (- 1022) = e"
      proof (cases "binade a \<le> - 1022")
        case True
        then have "e = - 1022" by (simp add: e_def)
        then show ?thesis using b_le by simp
      next
        case False
        then have e: "e = binade a" by (simp add: e_def)
        have "2 powi e \<le> a" using binade_bounds [OF a] by (simp add: e)
        then have "u * 2 ^ 52 \<le> a" unfolding p52 .
        then have low: "of_int (2 ^ 52) \<le> a / u" using u by (simp add: field_simps)
        have "2 ^ 52 \<le> \<bar>n\<bar>"
        proof (cases "0 \<le> q")
          case True
          then have "q = a" by (simp add: a_def)
          then have "of_int (2 ^ 52) \<le> q / u" using low by (simp only:)
          then have "2 ^ 52 \<le> n" unfolding n_def by (rule round_even_ge)
          then show ?thesis by simp
        next
          case False
          then have "q = - a" by (simp add: a_def)
          then have "q / u = - (a / u)" by simp
          then have "q / u \<le> of_int (- (2 ^ 52))" using low by simp
          then have "n \<le> - (2 ^ 52)" unfolding n_def by (rule round_even_le)
          then show ?thesis by simp
        qed
        then have "rat_of_int (2 ^ 52) \<le> of_int \<bar>n\<bar>" by (simp only: of_int_le_iff)
        then have "u * rat_of_int (2 ^ 52) \<le> u * of_int \<bar>n\<bar>"
          using u by (intro mult_left_mono) simp_all
        then have "2 powi e \<le> w" unfolding p52 w by (simp add: mult.commute)
        then have "binade w = e"
          using up by (intro binade_unique [OF pos])
        moreover have "- 1022 \<le> e" by (simp add: e_def)
        ultimately show ?thesis by simp
      qed
      show ?thesis using same [OF k] by (simp add: x)
    qed
  qed
qed


text \<open>Every value of \<open>double\<close> is its own rounding.\<close>

lemma fl_value_of [simp]: "fl (value_of a) = value_of a"
proof -
  obtain q where "value_of a = fl q"
    using value_of [of a] by auto
  then show ?thesis
    by (simp add: fl_idem)
qed

lemma value_of_D [simp]: "value_of (D q) = fl q"
  by transfer simp

lemma D_value_of [simp]: "D (value_of a) = a"
  by transfer (auto simp: fl_idem)

lemma double_minus_self [simp]: "(a::double) - a = 0"
  by transfer simp

lemma double_zero_divide [simp]: "(0::double) / a = 0"
  by transfer simp

lemma double_add_zero [simp]: "(a::double) + 0 = a"
  by transfer (auto simp: fl_idem)

lemma fl_1 [simp]: "fl 1 = 1"
  by code_simp

lemma double_divide_one [simp]: "(a::double) / 1 = a"
  by transfer (auto simp: fl_idem)

lemma double_one_le_ten [simp]: "(1::double) \<le> D 10"
  by code_simp

lemma double_zero_neq_one [simp]: "(0::double) \<noteq> 1" "(1::double) \<noteq> 0"
  by code_simp+

text \<open>
  The sums that the zoom buttons and the wheel compute are rounded as the engine rounds
  them: three clicks on Zoom In from scale 1 do not give \<open>1.6\<close>, and a wheel turn of
  \<open>deltaY = 600\<close> from scale \<open>2.2\<close> does not give 1.
\<close>

lemma zoom_sums_are_rounded:
  "1 + D (1 / 5) = D (6 / 5)"
  "1 + D (1 / 5) + D (1 / 5) + D (1 / 5) = D (7205759403792793 / 4503599627370496)"
  "1 + D (1 / 5) + D (1 / 5) + D (1 / 5) < D (8 / 5)"
  "D (22 / 10) + - D 600 * D (2 / 1000) = D (4503599627370497 / 4503599627370496)"
  "1 < D (22 / 10) + - D 600 * D (2 / 1000)"
  by code_simp+

lemma double_examples:
  "\<not> D (6 / 5) \<le> 1" "1 < D (6 / 5)" "D (6 / 5) \<noteq> 0" "D (6 / 5) \<noteq> 1" "D (6 / 5) \<le> D 10"
  "D (6 / 5) + - D 1000 * D (2 / 1000) \<le> 1"
  "D (6 / 5) + - D 1000 * D (2 / 1000) \<le> D 10"
  "D 15 - D 10 = D 5" "D 10 - D 10 = 0" "D 16 - D 10 = D 6" "D 13 - D 10 = D 3"
  "D 6 / D (6 / 5) = D 5" "D 3 / D (6 / 5) = D (5 / 2)"
  "0 + D 5 = D 5" "0 + D (5 / 2) = D (5 / 2)" "D 5 / 1 = D 5"
  "D 5 \<noteq> 0"
  by code_simp+


section \<open>Lemmas on the handlers\<close>

lemma str_eq_iff [simp]: "str a = str b \<longleftrightarrow> a = b"
  by (simp add: str_def inj_on_def)

lemma str_append: "str a @ str b = str (a @ b)"
  by (simp add: str_def)

lemma run_Nil [simp]: "run [] \<sigma> = \<sigma>"
  by (simp add: run_def)

lemma run_Cons [simp]: "run (e # evs) \<sigma> = run evs (step e \<sigma>)"
  by (simp add: run_def)

lemma run_append: "run (evs @ evs') \<sigma> = run evs' (run evs \<sigma>)"
  by (simp add: run_def)

lemma sys_simps [simp]:
  "rendered (discrete h \<sigma>) = h (rendered \<sigma>) (rendered \<sigma>)"
  "current (discrete h \<sigma>) = h (rendered \<sigma>) (current \<sigma>)"
  "rendered (deferred h \<sigma>) = rendered \<sigma>"
  "current (deferred h \<sigma>) = h (rendered \<sigma>) (current \<sigma>)"
  "rendered (render \<sigma>) = current \<sigma>"
  "current (render \<sigma>) = current \<sigma>"
  "rendered (synced s) = s"
  "current (synced s) = s"
  by (simp_all add: discrete_def deferred_def render_def synced_def)

lemma synced_eq: "synced s = \<lparr>rendered = s, current = s\<rparr>"
  by (simp add: synced_def)

lemma after_simps [simp]: "after (Inr s) = s" "after (Inl (e, s)) = s"
  by (simp_all add: after_def)

lemma slice0_in_range:
  "0 \<le> i \<Longrightarrow> i \<le> int (length h) - 1 \<Longrightarrow> slice0 h (i + 1) = take (nat i + 1) h"
  by (simp add: slice0_def Let_def nat_add_distrib)

lemma handleFilterClick_effective:
  "baseImage r \<noteq> None \<Longrightarrow> activeFilter r \<noteq> f \<Longrightarrow>
   handleFilterClick f True r s =
     s\<lparr>objectUrls := insert (nextUrl s) (objectUrls s), nextUrl := nextUrl s + 1,
       activeFilter := f, zoom := zoom_reset,
       pending := pending s @ [FilterOnload f (history r) (historyIndex r) (nextUrl s)]\<rparr>"
  by (auto simp: handleFilterClick_def createObjectURL_def Let_def)

lemma history_handleUndo [simp]: "history (after (handleUndo r s)) = history s"
  by (simp add: handleUndo_def Let_def split: option.splits)

lemma history_handleRedo [simp]: "history (after (handleRedo r s)) = history s"
  by (simp add: handleRedo_def Let_def split: option.splits)

lemma historyIndex_handleUndo:
  "historyIndex (after (handleUndo r s)) =
     (if 0 < historyIndex r then historyIndex r - 1 else historyIndex s)"
  by (simp add: handleUndo_def canUndo_def Let_def split: option.splits)

lemma historyIndex_handleRedo:
  "historyIndex (after (handleRedo r s)) =
     (if historyIndex r < int (length (history r)) - 1 then historyIndex r + 1
      else historyIndex s)"
  by (simp add: handleRedo_def canRedo_def Let_def split: option.splits)

lemma handleUndo_blocked: "\<not> 0 < historyIndex r \<Longrightarrow> handleUndo r s = Inr s"
  by (simp add: handleUndo_def canUndo_def)

lemma handleRedo_blocked:
  "\<not> historyIndex r < int (length (history r)) - 1 \<Longrightarrow> handleRedo r s = Inr s"
  by (simp add: handleRedo_def canRedo_def)

lemma handleUndo_returns:
  "historyIndex r \<le> int (length (history r)) \<Longrightarrow> \<exists>s'. handleUndo r s = Inr s'"
  by (simp add: handleUndo_def canUndo_def js_index_def Let_def)

lemma handleRedo_returns:
  "- 1 \<le> historyIndex r \<Longrightarrow> \<exists>s'. handleRedo r s = Inr s'"
  by (simp add: handleRedo_def canRedo_def js_index_def Let_def)


section \<open>Lemmas on the history index\<close>

lemma valid_handleImageChange:
  "history_index_valid s \<Longrightarrow> history_index_valid (handleImageChange fo ctx s)"
  by (simp add: history_index_valid_def handleImageChange_def createObjectURL_def Let_def
      split: option.splits)

lemma valid_handleFilterClick:
  "history_index_valid s \<Longrightarrow> history_index_valid (handleFilterClick f ctx r s)"
  by (simp add: history_index_valid_def handleFilterClick_def createObjectURL_def Let_def)

lemma valid_handleImageChange_onload: "history_index_valid (handleImageChange_onload u d s)"
  by (simp add: history_index_valid_def handleImageChange_onload_def revokeObjectURL_def)

lemma valid_handleFilterClick_onload:
  "history_index_valid (handleFilterClick_onload f h i u d s)"
  by (simp add: history_index_valid_def handleFilterClick_onload_def revokeObjectURL_def Let_def)

lemma valid_image_loaded: "history_index_valid s \<Longrightarrow> history_index_valid (image_loaded k d s)"
  by (simp add: image_loaded_def valid_handleImageChange_onload valid_handleFilterClick_onload
      split: pending_callback.splits)

text \<open>
  Undo and redo keep the index valid when the render they belong to shows the history
  and the index that the state has.
\<close>

lemma valid_handleUndo:
  "history_index_valid s \<Longrightarrow> history r = history s \<Longrightarrow> historyIndex r = historyIndex s \<Longrightarrow>
   history_index_valid (after (handleUndo r s))"
  unfolding history_index_valid_def
  by (cases "history s = []") (auto simp: historyIndex_handleUndo)

lemma valid_handleRedo:
  "history_index_valid s \<Longrightarrow> history r = history s \<Longrightarrow> historyIndex r = historyIndex s \<Longrightarrow>
   history_index_valid (after (handleRedo r s))"
  unfolding history_index_valid_def
  by (cases "history s = []") (auto simp: historyIndex_handleRedo)

lemma valid_handleReset: "history_index_valid (handleReset s)"
  by (simp add: history_index_valid_def handleReset_def)

lemma valid_handleGenerateClick:
  "history_index_valid s \<Longrightarrow> history_index_valid (handleGenerateClick r s)"
  by (simp add: history_index_valid_def handleGenerateClick_def)

lemma valid_generate_settled:
  "history_index_valid s \<Longrightarrow> history_index_valid (generate_settled k res s)"
  by (simp add: history_index_valid_def generate_settled_def handleGenerateClick_resume_def
      remove_pending_def catch_block_def Let_def split: api_result.splits option.splits)

lemma history_funpow_handleMouseMove [simp]:
  "history ((handleMouseMove cx cy ^^ n) s) = history s"
  "historyIndex ((handleMouseMove cx cy ^^ n) s) = historyIndex s"
  by (induction n) (simp_all add: handleMouseMove_def Let_def)

lemma valid_zoom_events:
  "history_index_valid s \<Longrightarrow> history_index_valid (setZoomLevel q s)"
  "history_index_valid s \<Longrightarrow> history_index_valid (handleMouseDown cx cy b r s)"
  "history_index_valid s \<Longrightarrow> history_index_valid (mousemove_listeners cx cy s)"
  "history_index_valid s \<Longrightarrow> history_index_valid (mouseup_listeners s)"
  by (simp_all add: history_index_valid_def setZoomLevel_def handleMouseDown_def
      mousemove_listeners_def mouseup_listeners_def handleMouseUp_def Let_def)

text \<open>Every event but Undo and Redo keeps the index valid, whatever the render shows.\<close>

lemma valid_step_other:
  assumes "history_index_valid (current \<sigma>)" and "e \<noteq> Undo" and "e \<noteq> Redo"
  shows "history_index_valid (current (step e \<sigma>))"
proof (cases e)
  case (PromptChange p)
  then show ?thesis using assms(1) by (simp add: history_index_valid_def)
next
  case ZoomReset
  then show ?thesis using assms(1) by (simp add: history_index_valid_def)
qed (simp_all add: assms valid_handleImageChange valid_handleFilterClick
      valid_handleReset valid_handleGenerateClick valid_generate_settled
      valid_image_loaded valid_zoom_events handleZoomButtons_def handleScaleChange_def
      handleWheel_def Let_def)

text \<open>Every event keeps the index valid when it is handled by an up-to-date render.\<close>

lemma valid_step_rendered:
  assumes "history_index_valid (current \<sigma>)" and "history_rendered \<sigma>"
  shows "history_index_valid (current (step e \<sigma>))"
proof (cases "e = Undo \<or> e = Redo")
  case False
  then show ?thesis using assms(1) by (simp add: valid_step_other)
next
  case True
  have "history (rendered \<sigma>) = history (current \<sigma>)"
    "historyIndex (rendered \<sigma>) = historyIndex (current \<sigma>)"
    using assms(2) by (simp_all add: history_rendered_def)
  then show ?thesis
    using True assms(1) by (auto simp: valid_handleUndo valid_handleRedo)
qed

lemma history_rendered_render [simp]: "history_rendered (render \<sigma>)"
  by (simp add: history_rendered_def)

text \<open>So the index is valid in every run in which each event is handled by an up-to-date render.\<close>

lemma valid_run_rendered:
  "history_index_valid (current \<sigma>) \<Longrightarrow>
   history_index_valid (current (run (concat (map (\<lambda>e. [Render, e]) evs)) \<sigma>))"
proof (induction evs arbitrary: \<sigma>)
  case Nil
  then show ?case by simp
next
  case (Cons e evs)
  have "history_index_valid (current (step e (render \<sigma>)))"
    using Cons.prems by (intro valid_step_rendered) simp_all
  then show ?case
    using Cons.IH [of "step e (render \<sigma>)"] by simp
qed

lemma valid_initial: "history_index_valid initial"
  by (simp add: history_index_valid_def initial_def)

text \<open>A Redo handled by a render that an \<open>onload\<close> has overtaken leaves the index invalid.\<close>

lemma stale_redo_not_valid:
  "history_index_valid (current (run (butlast stale_redo) start))"
  "history_index_valid (rendered (run (butlast stale_redo) start))"
  "\<not> history_rendered (run (butlast stale_redo) start)"
  "\<not> history_index_valid (current (run stale_redo start))"
  by (simp_all add: stale_redo_def initial_def history_index_valid_def history_rendered_def
      start_def synced_def discrete_def deferred_def render_def
      handleImageChange_def handleImageChange_onload_def handleFilterClick_def
      handleFilterClick_onload_def handleUndo_def handleRedo_def
      image_loaded_def remove_pending_def createObjectURL_def revokeObjectURL_def
      canUndo_def canRedo_def js_index_def slice0_def Let_def)

lemmas handler_defs =
  handleImageChange_def handleImageChange_onload_def handleFilterClick_def
  handleFilterClick_onload_def handleUndo_def handleRedo_def handleReset_def
  handleGenerateClick_def handleGenerateClick_resume_def catch_block_def errorMessage_def
  setZoomLevel_def handleZoomButtons_def handleScaleChange_def handleWheel_def
  handleMouseDown_def handleMouseMove_def handleMouseUp_def
  mousemove_listeners_def mouseup_listeners_def
  image_loaded_def generate_settled_def remove_pending_def
  createObjectURL_def revokeObjectURL_def canUndo_def canRedo_def currentImageState_def
  js_index_def slice0_def zoom_reset_def start_def synced_def discrete_def deferred_def
  render_def

lemma undone_twice_eq:
  "undone_twice = \<lparr>objectUrls = {}, nextUrl = 3,
     baseImage = Some photo, editedImageUrl = None, prompt = [], isLoading = False,
     error = None, activeFilter = str ''none'', history = three_entries, historyIndex = 0,
     zoom = \<lparr>scale = 1, pan_x = 0, pan_y = 0\<rparr>,
     isPanning = False, lastMousePos = (0, 0), pending = [], panListeners = 0\<rparr>"
  by (simp add: undone_twice_def three_entries_def initial_def handler_defs Let_def)

lemma prompted_eq:
  "prompted = \<lparr>objectUrls = {}, nextUrl = 3,
     baseImage = Some photo, editedImageUrl = None, prompt = str ''Add a cat'', isLoading = False,
     error = None, activeFilter = str ''none'', history = three_entries, historyIndex = 0,
     zoom = \<lparr>scale = 1, pan_x = 0, pan_y = 0\<rparr>,
     isPanning = False, lastMousePos = (0, 0), pending = [], panListeners = 0\<rparr>"
  by (simp add: prompted_def undone_twice_eq)

lemma prompted_guard:
  "baseImage prompted \<noteq> None" "currentImageState prompted \<noteq> None"
  "trim (prompt prompted) \<noteq> []"
  by (simp_all add: prompted_eq currentImageState_def js_index_def three_entries_def
      trim_def str_def isWhiteSpace_def)


section \<open>Lemmas on the filter click and the generate call\<close>

lemma handleFilterClick_blocked:
  "baseImage r = None \<or> activeFilter r = f \<Longrightarrow> handleFilterClick f ctx r s = s"
  by (auto simp: handleFilterClick_def)

lemma handleFilterClick_blocks_itself:
  "baseImage (handleFilterClick f ctx r r) = None \<or> activeFilter (handleFilterClick f ctx r r) = f"
  by (simp add: handleFilterClick_def createObjectURL_def Let_def)

lemma handleFilterClick_onload_keeps:
  "baseImage (handleFilterClick_onload g h i u d t) = baseImage t"
  "activeFilter (handleFilterClick_onload g h i u d t) = activeFilter t"
  by (simp_all add: handleFilterClick_onload_def revokeObjectURL_def Let_def)

lemma handleFilterClick_twice:
  "handleFilterClick f ctx' (handleFilterClick f ctx r r) t = t"
  using handleFilterClick_blocks_itself [of f ctx r] by (rule handleFilterClick_blocked)

lemma step_FilterClick_twice:
  "step (FilterClick f ctx') (step (FilterClick f ctx) \<sigma>) = step (FilterClick f ctx) \<sigma>"
  by (simp add: discrete_def handleFilterClick_twice)

lemma run_filter_clicks:
  "run (map (FilterClick f) ctxs) (step (FilterClick f ctx) \<sigma>) = step (FilterClick f ctx) \<sigma>"
  by (induction ctxs) (simp_all del: step.simps add: step_FilterClick_twice)

lemma handleFilterClick_pending:
  "length (pending (handleFilterClick f ctx r s)) \<le> length (pending s) + 1"
  by (simp add: handleFilterClick_def createObjectURL_def Let_def)

lemma handleFilterClick_history:
  "history (handleFilterClick f ctx r s) = history s"
  "historyIndex (handleFilterClick f ctx r s) = historyIndex s"
  by (simp_all add: handleFilterClick_def createObjectURL_def Let_def)

lemma handleGenerateClick_starts:
  "baseImage r \<noteq> None \<Longrightarrow> currentImageState r \<noteq> None \<Longrightarrow> trim (prompt r) \<noteq> [] \<Longrightarrow>
   handleGenerateClick r s =
     s\<lparr>isLoading := True, error := None, editedImageUrl := None,
       pending := pending s @ [GenerateCall]\<rparr>"
  by (auto simp: handleGenerateClick_def)

lemma run_generate:
  assumes "baseImage r \<noteq> None" and "currentImageState r \<noteq> None" and "trim (prompt r) \<noteq> []"
  shows "current (run [GenerateClick, GenerateSettled (length (pending s)) res]
           \<lparr>rendered = r, current = s\<rparr>) =
     handleGenerateClick_resume res (s\<lparr>isLoading := True, error := None, editedImageUrl := None\<rparr>)"
  by (simp add: handleGenerateClick_starts [OF assms] generate_settled_def remove_pending_def)

lemma scan_parts_last:
  "j < n \<Longrightarrow> inlineData (parts ! j) = Some b \<Longrightarrow>
   (\<forall>k. j < k \<and> k < n \<longrightarrow> inlineData (parts ! k) = None) \<Longrightarrow>
   scan_parts parts n = Some (data_url b)"
proof (induction n)
  case 0
  then show ?case by simp
next
  case (Suc n)
  show ?case
  proof (cases "j = n")
    case True
    with Suc.prems show ?thesis by simp
  next
    case False
    with Suc.prems have "j < n" "inlineData (parts ! n) = None" by auto
    with Suc show ?thesis by simp
  qed
qed

lemma scan_parts_none:
  "(\<forall>k<n. inlineData (parts ! k) = None) \<Longrightarrow> scan_parts parts n = None"
  by (induction n) simp_all

lemma scan_parts_find:
  "scan_parts parts (length parts) =
     map_option (\<lambda>p. data_url (the (inlineData p))) (find (\<lambda>p. inlineData p \<noteq> None) (rev parts))"
proof -
  have "n \<le> length parts \<Longrightarrow> scan_parts parts n =
     map_option (\<lambda>p. data_url (the (inlineData p)))
       (find (\<lambda>p. inlineData p \<noteq> None) (rev (take n parts)))" for n
    by (induction n) (auto simp: take_Suc_conv_app_nth split: option.splits)
  then show ?thesis by simp
qed

section \<open>Lemmas on zoom and pan\<close>

lemma handleMouseMove_again:
  "handleMouseMove cx cy (handleMouseMove cx cy s) = handleMouseMove cx cy s"
  by (simp add: handleMouseMove_def Let_def)

lemma funpow_handleMouseMove:
  "(handleMouseMove cx cy ^^ Suc n) s = handleMouseMove cx cy s"
  by (induction n) (simp_all add: handleMouseMove_again)

lemma mousemove_listeners_dragging:
  "0 < panListeners s \<Longrightarrow> mousemove_listeners cx cy s = handleMouseMove cx cy s"
proof -
  assume "0 < panListeners s"
  then obtain n where "panListeners s = Suc n"
    by (cases "panListeners s") simp_all
  then show ?thesis
    using funpow_handleMouseMove [where n = n and s = s and cx = cx and cy = cy]
    by (simp add: mousemove_listeners_def)
qed

lemma mousemove_listeners_idle: "panListeners s = 0 \<Longrightarrow> mousemove_listeners cx cy s = s"
  by (simp add: mousemove_listeners_def)

lemma zoom_invariant_setZoomLevel: "zoom_invariant (setZoomLevel q s)"
  by (auto simp: zoom_invariant_def setZoomLevel_def Let_def max_def min_def)

lemma zoom_handleImageChange:
  "zoom (handleImageChange fo ctx s) = (if fo = None then zoom s else zoom_reset)"
  by (simp add: handleImageChange_def createObjectURL_def Let_def split: option.splits)

lemma zoom_handleFilterClick:
  "zoom (handleFilterClick f ctx r s) = zoom s \<or> zoom (handleFilterClick f ctx r s) = zoom_reset"
  by (simp add: handleFilterClick_def createObjectURL_def Let_def)

lemma zoom_handleUndo:
  "zoom (after (handleUndo r s)) = zoom s \<or> zoom (after (handleUndo r s)) = zoom_reset"
  by (simp add: handleUndo_def Let_def split: option.splits)

lemma zoom_handleRedo:
  "zoom (after (handleRedo r s)) = zoom s \<or> zoom (after (handleRedo r s)) = zoom_reset"
  by (simp add: handleRedo_def Let_def split: option.splits)

lemma zoom_image_loaded: "zoom (image_loaded k d s) = zoom s"
  by (simp add: image_loaded_def handleImageChange_onload_def handleFilterClick_onload_def
      remove_pending_def revokeObjectURL_def Let_def split: pending_callback.splits)

lemma zoom_generate:
  "zoom (handleGenerateClick r s) = zoom s"
  "zoom (generate_settled k res s) = zoom s \<or> zoom (generate_settled k res s) = zoom_reset"
  by (simp_all add: handleGenerateClick_def generate_settled_def handleGenerateClick_resume_def
      catch_block_def remove_pending_def Let_def split: api_result.splits option.splits)

text \<open>Outside a drag the zoom record is kept, reset, or written by setZoomLevel.\<close>

lemma zoom_step_cases:
  assumes "writes_zoom_outside_drag e"
  shows "zoom (current (step e \<sigma>)) = zoom (current \<sigma>)
    \<or> zoom (current (step e \<sigma>)) = zoom_reset
    \<or> (\<exists>q. zoom (current (step e \<sigma>)) = zoom (setZoomLevel q (current \<sigma>)))"
proof (cases e)
  case (ImageChange fo ctx)
  then show ?thesis by (simp add: zoom_handleImageChange)
next
  case (FilterClick f ctx)
  then show ?thesis using zoom_handleFilterClick [of f ctx "rendered \<sigma>" "current \<sigma>"] by auto
next
  case Undo
  then show ?thesis using zoom_handleUndo [of "rendered \<sigma>" "current \<sigma>"] by auto
next
  case Redo
  then show ?thesis using zoom_handleRedo [of "rendered \<sigma>" "current \<sigma>"] by auto
next
  case Reset
  then show ?thesis by (simp add: handleReset_def)
next
  case (PromptChange p)
  then show ?thesis by simp
next
  case GenerateClick
  then show ?thesis by (simp add: zoom_generate(1))
next
  case (GenerateSettled k res)
  then show ?thesis using zoom_generate(2) [of k res "current \<sigma>"] by auto
next
  case (ImageLoaded k d)
  then show ?thesis by (simp add: zoom_image_loaded)
next
  case (ZoomButton q)
  then show ?thesis by (auto simp: handleZoomButtons_def)
next
  case (ZoomSlider q)
  then show ?thesis by (auto simp: handleScaleChange_def)
next
  case ZoomReset
  then show ?thesis by (simp add: zoom_reset_def)
next
  case (Wheel q)
  then show ?thesis by (auto simp: handleWheel_def Let_def)
next
  case (MouseDown cx cy b)
  then show ?thesis by (simp add: handleMouseDown_def)
next
  case (MouseMove cx cy)
  then show ?thesis using assms by simp
next
  case MouseUp
  then show ?thesis by (simp add: mouseup_listeners_def handleMouseUp_def)
next
  case Render
  then show ?thesis by simp
qed

lemma zoom_invariant_step:
  assumes "zoom_invariant (current \<sigma>)" and "writes_zoom_outside_drag e"
  shows "zoom_invariant (current (step e \<sigma>))"
proof -
  have "zoom_invariant t" if "zoom t = zoom (current \<sigma>)" for t
    using that assms(1) by (simp add: zoom_invariant_def)
  moreover have "zoom_invariant t" if "zoom t = zoom_reset" for t
    using that by (simp add: zoom_invariant_def zoom_reset_def)
  moreover have "zoom_invariant t" if "zoom t = zoom (setZoomLevel q (current \<sigma>))" for t q
    using that zoom_invariant_setZoomLevel [of q "current \<sigma>"] by (simp add: zoom_invariant_def)
  ultimately show ?thesis
    using zoom_step_cases [OF assms(2), of \<sigma>] by blast
qed

lemma scale_funpow_handleMouseMove [simp]:
  "scale (zoom ((handleMouseMove cx cy ^^ n) s)) = scale (zoom s)"
  by (induction n) (simp_all add: handleMouseMove_def Let_def)

lemma scale_in_range_step:
  assumes "scale_in_range (current \<sigma>)"
  shows "scale_in_range (current (step e \<sigma>))"
proof (cases "writes_zoom_outside_drag e")
  case False
  with assms show ?thesis
    by (cases e) (simp_all add: scale_in_range_def mousemove_listeners_def)
next
  case True
  have "scale_in_range t" if "zoom t = zoom (current \<sigma>)" for t
    using that assms by (simp add: scale_in_range_def)
  moreover have "scale_in_range t" if "zoom t = zoom_reset" for t
    using that by (simp add: scale_in_range_def zoom_reset_def)
  moreover have "scale_in_range t" if "zoom t = zoom (setZoomLevel q (current \<sigma>))" for t q
    using that zoom_invariant_setZoomLevel [of q "current \<sigma>"]
    by (simp add: scale_in_range_def zoom_invariant_def)
  ultimately show ?thesis
    using zoom_step_cases [OF True, of \<sigma>] by blast
qed

lemma scale_in_range_run:
  "scale_in_range (current \<sigma>) \<Longrightarrow> scale_in_range (current (run evs \<sigma>))"
  by (induction evs arbitrary: \<sigma>) (simp_all del: step.simps add: scale_in_range_step)

lemma double_orders: "1 \<le> D (6 / 5)" "\<not> 1 \<le> D (6 / 5) + - D 1000 * D (2 / 1000)"
  by code_simp+

lemma uploaded_eq:
  "run [ImageChange (Some photo) True, ImageLoaded 0 (str ''url0''), Render] start =
     synced \<lparr>objectUrls = {}, nextUrl = 1,
       baseImage = Some photo, editedImageUrl = None, prompt = [], isLoading = False,
       error = None, activeFilter = str ''none'',
       history = [\<lparr>imageUrl = str ''url0'', filter_name = str ''none''\<rparr>], historyIndex = 0,
       zoom = \<lparr>scale = 1, pan_x = 0, pan_y = 0\<rparr>,
       isPanning = False, lastMousePos = (0, 0), pending = [], panListeners = 0\<rparr>"
  by (simp add: initial_def handler_defs Let_def)

lemma zoomed_in_eq:
  "zoomed_in = synced \<lparr>objectUrls = {}, nextUrl = 1,
     baseImage = Some photo, editedImageUrl = None, prompt = [], isLoading = False,
     error = None, activeFilter = str ''none'',
     history = [\<lparr>imageUrl = str ''url0'', filter_name = str ''none''\<rparr>], historyIndex = 0,
     zoom = \<lparr>scale = D (6 / 5), pan_x = 0, pan_y = 0\<rparr>,
     isPanning = False, lastMousePos = (0, 0), pending = [], panListeners = 0\<rparr>"
proof -
  have "zoomed_in = step (ZoomButton (D (1 / 5)))
      (run [ImageChange (Some photo) True, ImageLoaded 0 (str ''url0''), Render] start)"
    by (simp add: zoomed_in_def)
  then show ?thesis
    unfolding uploaded_eq
    by (simp add: handler_defs Let_def zoom_sums_are_rounded(1) double_examples double_orders max_def min_def)
qed

lemma dragging_eq:
  "dragging = synced \<lparr>objectUrls = {}, nextUrl = 1,
     baseImage = Some photo, editedImageUrl = None, prompt = [], isLoading = False,
     error = None, activeFilter = str ''none'',
     history = [\<lparr>imageUrl = str ''url0'', filter_name = str ''none''\<rparr>], historyIndex = 0,
     zoom = \<lparr>scale = D (6 / 5), pan_x = 0, pan_y = 0\<rparr>,
     isPanning = True, lastMousePos = (D 10, D 10), pending = [], panListeners = 1\<rparr>"
  by (simp add: dragging_def zoomed_in_eq handler_defs double_examples)

lemma drag_then_zoom_out_eq: "run drag_then_zoom_out start = step (MouseMove (D 15) (D 10))
    (step (Wheel (D 1000)) dragging)"
  by (simp add: drag_then_zoom_out_def dragging_def zoomed_in_def)

lemma zoom_of_drag_then_zoom_out_steps:
  "zoom (current (run (take 4 drag_then_zoom_out) start)) = \<lparr>scale = D (6 / 5), pan_x = 0, pan_y = 0\<rparr>"
  "panListeners (current (run (take 5 drag_then_zoom_out) start)) = 1"
  "zoom (current (run (take 6 drag_then_zoom_out) start)) = \<lparr>scale = 1, pan_x = 0, pan_y = 0\<rparr>"
proof -
  have a: "run (take 4 drag_then_zoom_out) start = zoomed_in"
    by (simp add: drag_then_zoom_out_def zoomed_in_def)
  have b: "run (take 5 drag_then_zoom_out) start = dragging"
    by (simp add: drag_then_zoom_out_def dragging_def zoomed_in_def)
  have c: "run (take 6 drag_then_zoom_out) start = step (Wheel (D 1000)) dragging"
    by (simp add: drag_then_zoom_out_def dragging_def zoomed_in_def)
  show "zoom (current (run (take 4 drag_then_zoom_out) start))
      = \<lparr>scale = D (6 / 5), pan_x = 0, pan_y = 0\<rparr>"
    unfolding a by (simp add: zoomed_in_eq)
  show "panListeners (current (run (take 5 drag_then_zoom_out) start)) = 1"
    unfolding b by (simp add: dragging_eq)
  show "zoom (current (run (take 6 drag_then_zoom_out) start)) = \<lparr>scale = 1, pan_x = 0, pan_y = 0\<rparr>"
    unfolding c using double_examples(6,7) double_orders(2)
    by (simp add: dragging_eq handleWheel_def setZoomLevel_def Let_def max_def min_def)
qed


section \<open>Lemmas on the variant without filters\<close>

lemma p2_run_Nil [simp]: "p2_run [] \<sigma> = \<sigma>"
  by (simp add: p2_run_def)

lemma p2_run_Cons [simp]: "p2_run (e # evs) \<sigma> = p2_run evs (p2_step e \<sigma>)"
  by (simp add: p2_run_def)

text \<open>No event of this variant releases an object URL.\<close>

lemma p2_step_keeps_urls: "objectUrls (current \<sigma>) \<subseteq> objectUrls (current (p2_step e \<sigma>))"
  by (cases e)
    (auto simp: p2_handleImageChange_def p2_handleGenerateClick_def p2_generate_settled_def
      p2_handleGenerateClick_resume_def createObjectURL_def Let_def
      split: option.splits api_result.splits)

lemma p2_run_keeps_urls: "objectUrls (current \<sigma>) \<subseteq> objectUrls (current (p2_run evs \<sigma>))"
proof (induction evs arbitrary: \<sigma>)
  case Nil
  show ?case by simp
next
  case (Cons e evs)
  show ?case
    using p2_step_keeps_urls [of \<sigma> e] Cons [of "p2_step e \<sigma>"] by auto
qed

lemma p2_generate_failure_is_caught:
  "p2_error (p2_handleGenerateClick_resume (Rejected err) s)
     = Some (str ''Failed to generate image. '' @ errorMessage err)
   \<and> p2_isLoading (p2_handleGenerateClick_resume (Rejected err) s) = False
   \<and> p2_originalImage (p2_handleGenerateClick_resume (Rejected err) s) = p2_originalImage s
   \<and> p2_prompt (p2_handleGenerateClick_resume (Rejected err) s) = p2_prompt s"
  by (simp add: p2_handleGenerateClick_resume_def)

lemma p2_generate_shows_last_inline_part:
  "p2_editedImageUrl (p2_handleGenerateClick_resume (Parts parts) s)
     = (case scan_parts parts (length parts) of
          Some url \<Rightarrow> Some url | None \<Rightarrow> p2_editedImageUrl s)"
  "scan_parts parts (length parts) = None \<Longrightarrow>
   p2_error (p2_handleGenerateClick_resume (Parts parts) s)
     = Some (str ''No image was generated. Please try a different prompt.'')"
  by (simp_all add: p2_handleGenerateClick_resume_def split: option.splits)

text \<open>
  The two sums above, in the handlers: the wheel turn does not reach the reset at scale
  1, and three clicks on Zoom In end below \<open>1.6\<close>.
\<close>

lemma setZoomLevel_keeps:
  "max 1 (min q (D 10)) = q \<Longrightarrow> q \<noteq> 1 \<Longrightarrow> setZoomLevel q t = t\<lparr>zoom := (zoom t)\<lparr>scale := q\<rparr>\<rparr>"
  by (simp add: setZoomLevel_def Let_def)

lemma step_ZoomButton_synced:
  "step (ZoomButton d) (synced t) = synced (setZoomLevel (scale (zoom t) + d) t)"
  by (simp add: synced_def discrete_def handleZoomButtons_def)

lemma handleWheel_rounded:
  assumes "scale (zoom r) = D (22 / 10)"
  shows "zoom (handleWheel (D 600) r s)
    = (zoom s)\<lparr>scale := D (4503599627370497 / 4503599627370496)\<rparr>"
proof -
  define q where "q = D (4503599627370497 / 4503599627370496)"
  have q: "max 1 (min q (D 10)) = q" "q \<noteq> 1"
    unfolding q_def by code_simp+
  have "scale (zoom r) + - D 600 * D (2 / 1000) = q"
    unfolding assms q_def by (rule zoom_sums_are_rounded(4))
  then have "handleWheel (D 600) r s = setZoomLevel q s"
    by (simp only: handleWheel_def Let_def)
  then have "zoom (handleWheel (D 600) r s) = (zoom s)\<lparr>scale := q\<rparr>"
    by (simp add: setZoomLevel_keeps [OF q])
  then show ?thesis
    unfolding q_def .
qed

lemma handleZoomButtons_rounded:
  "scale (zoom (current (run [ZoomButton (D (1 / 5)), ZoomButton (D (1 / 5)),
      ZoomButton (D (1 / 5))] (synced (s\<lparr>zoom := zoom_reset\<rparr>)))))
    = D (7205759403792793 / 4503599627370496)"
proof -
  define d where "d = D (1 / 5)"
  define a where "a = D (6 / 5)"
  define b where "b = a + d"
  define c where "c = D (7205759403792793 / 4503599627370496)"
  have n: "1 + d = a" "max 1 (min a (D 10)) = a" "a \<noteq> 1"
    "max 1 (min b (D 10)) = b" "b \<noteq> 1"
    "b + d = c" "max 1 (min c (D 10)) = c" "c \<noteq> 1"
    unfolding a_def b_def c_def d_def by code_simp+
  have "scale (zoom (current (run [ZoomButton d, ZoomButton d, ZoomButton d]
      (synced (s\<lparr>zoom := zoom_reset\<rparr>))))) = c"
    using n(6) [unfolded b_def]
    by (simp del: step.simps add: step_ZoomButton_synced setZoomLevel_keeps n(1-5,7,8)
        zoom_reset_def b_def [symmetric])
  then show ?thesis
    unfolding c_def d_def .
qed

section \<open>Lemmas on the object URLs\<close>

lemma pending_urls_simps [simp]:
  "pending_urls [] = []"
  "pending_urls (cbs @ cbs') = pending_urls cbs @ pending_urls cbs'"
  "pending_urls (cb # cbs) = callback_urls cb @ pending_urls cbs"
  by (simp_all add: pending_urls_def)

lemma pending_urls_split:
  "k < length cbs \<Longrightarrow>
   pending_urls (take k cbs) @ callback_urls (cbs ! k) @ pending_urls (drop (Suc k) cbs)
     = pending_urls cbs"
proof (induction cbs arbitrary: k)
  case Nil
  then show ?case by simp
next
  case (Cons cb cbs)
  then show ?case by (cases k) simp_all
qed

lemma urls_owned_remove:
  assumes "urls_owned s" and "k < length (pending s)" and "callback_urls (pending s ! k) = [u]"
  shows "urls_owned (revokeObjectURL u (remove_pending k s))"
proof -
  let ?a = "pending_urls (take k (pending s))" and ?b = "pending_urls (drop (Suc k) (pending s))"
  have "pending_urls (pending s) = ?a @ [u] @ ?b"
    using pending_urls_split [OF assms(2)] assms(3) by simp
  then show ?thesis
    using assms(1) by (auto simp: urls_owned_def revokeObjectURL_def remove_pending_def)
qed

lemma urls_owned_create:
  assumes "urls_owned s" and "callback_urls cb = [nextUrl s]"
  shows "urls_owned (s\<lparr>objectUrls := insert (nextUrl s) (objectUrls s), nextUrl := nextUrl s + 1,
           pending := pending s @ [cb]\<rparr>)"
  using assms by (fastforce simp: urls_owned_def less_Suc_eq)

lemma urls_owned_cong:
  "urls_owned s \<Longrightarrow> objectUrls t = objectUrls s \<Longrightarrow> nextUrl t = nextUrl s \<Longrightarrow>
   pending_urls (pending t) = pending_urls (pending s) \<Longrightarrow> urls_owned t"
  by (simp add: urls_owned_def)

lemma urls_owned_handleImageChange:
  assumes "urls_owned s"
  shows "urls_owned (handleImageChange fo ctx s)"
proof (cases "fo = None \<or> \<not> ctx")
  case True
  then show ?thesis
    using assms by (auto simp: handleImageChange_def Let_def urls_owned_def split: option.splits)
next
  case False
  then obtain img where fo: "fo = Some img" and ctx: ctx
    by auto
  let ?s1 = "s\<lparr>baseImage := Some img, editedImageUrl := None, error := None, zoom := zoom_reset\<rparr>"
  have "urls_owned ?s1"
    using assms by (simp add: urls_owned_def)
  then have "urls_owned (?s1\<lparr>objectUrls := insert (nextUrl ?s1) (objectUrls ?s1),
      nextUrl := nextUrl ?s1 + 1, pending := pending ?s1 @ [UploadOnload (nextUrl ?s1)]\<rparr>)"
    by (rule urls_owned_create) simp
  then show ?thesis
    by (simp add: fo ctx handleImageChange_def createObjectURL_def Let_def)
qed

lemma urls_owned_handleFilterClick:
  assumes "urls_owned s"
  shows "urls_owned (handleFilterClick f ctx r s)"
proof (cases "baseImage r = None \<or> activeFilter r = f \<or> \<not> ctx")
  case True
  then show ?thesis
    using assms by (auto simp: handleFilterClick_def Let_def urls_owned_def)
next
  case False
  let ?s1 = "s\<lparr>activeFilter := f, zoom := zoom_reset\<rparr>"
  have "urls_owned ?s1"
    using assms by (simp add: urls_owned_def)
  then have "urls_owned (?s1\<lparr>objectUrls := insert (nextUrl ?s1) (objectUrls ?s1),
      nextUrl := nextUrl ?s1 + 1,
      pending := pending ?s1 @ [FilterOnload f (history r) (historyIndex r) (nextUrl ?s1)]\<rparr>)"
    by (rule urls_owned_create) simp
  then show ?thesis
    using False by (auto simp: handleFilterClick_def createObjectURL_def Let_def)
qed

lemma urls_owned_image_loaded:
  assumes "urls_owned s"
  shows "urls_owned (image_loaded k d s)"
proof (cases "k < length (pending s)")
  case False
  then show ?thesis using assms by (simp add: image_loaded_def)
next
  case True
  show ?thesis
  proof (cases "pending s ! k")
    case (UploadOnload u)
    then have "urls_owned (revokeObjectURL u (remove_pending k s))"
      using urls_owned_remove [OF assms True, of u] by simp
    then have "urls_owned (handleImageChange_onload u d (remove_pending k s))"
      by (rule urls_owned_cong)
        (simp_all add: handleImageChange_onload_def revokeObjectURL_def)
    then show ?thesis
      using True UploadOnload by (simp add: image_loaded_def)
  next
    case (FilterOnload f h i u)
    then have "urls_owned (revokeObjectURL u (remove_pending k s))"
      using urls_owned_remove [OF assms True, of u] by simp
    then have "urls_owned (handleFilterClick_onload f h i u d (remove_pending k s))"
      by (rule urls_owned_cong)
        (simp_all add: handleFilterClick_onload_def revokeObjectURL_def Let_def)
    then show ?thesis
      using True FilterOnload by (simp add: image_loaded_def)
  next
    case GenerateCall
    then show ?thesis
      using True assms by (simp add: image_loaded_def)
  qed
qed

lemma pending_urls_remove_GenerateCall:
  "k < length cbs \<Longrightarrow> cbs ! k = GenerateCall \<Longrightarrow>
   pending_urls (take k cbs) @ pending_urls (drop (Suc k) cbs) = pending_urls cbs"
  using pending_urls_split [of k cbs] by simp

lemma urls_owned_generate_settled:
  assumes "urls_owned s"
  shows "urls_owned (generate_settled k res s)"
proof (cases "k < length (pending s) \<and> pending s ! k = GenerateCall")
  case False
  then show ?thesis using assms by (auto simp: generate_settled_def)
next
  case True
  then have "pending_urls (pending (remove_pending k s)) = pending_urls (pending s)"
    by (simp add: remove_pending_def pending_urls_remove_GenerateCall)
  then have "urls_owned (handleGenerateClick_resume res (remove_pending k s))"
    by (intro urls_owned_cong [OF assms])
      (simp_all add: handleGenerateClick_resume_def catch_block_def remove_pending_def Let_def
        split: api_result.splits option.splits)
  then show ?thesis
    using True by (simp add: generate_settled_def)
qed

lemma browser_funpow_handleMouseMove [simp]:
  "objectUrls ((handleMouseMove cx cy ^^ n) s) = objectUrls s"
  "nextUrl ((handleMouseMove cx cy ^^ n) s) = nextUrl s"
  "pending ((handleMouseMove cx cy ^^ n) s) = pending s"
  by (induction n) (simp_all add: handleMouseMove_def Let_def)

lemma urls_owned_step:
  assumes "urls_owned (current \<sigma>)"
  shows "urls_owned (current (step e \<sigma>))"
proof (cases e)
  case (ImageChange fo ctx)
  then show ?thesis using assms by (simp add: urls_owned_handleImageChange)
next
  case (FilterClick f ctx)
  then show ?thesis using assms by (simp add: urls_owned_handleFilterClick)
next
  case (ImageLoaded k d)
  then show ?thesis using assms by (simp add: urls_owned_image_loaded)
next
  case (GenerateSettled k res)
  then show ?thesis using assms by (simp add: urls_owned_generate_settled)
next
  case Undo
  have "urls_owned (after (handleUndo (rendered \<sigma>) (current \<sigma>)))"
    by (rule urls_owned_cong [OF assms])
      (simp_all add: handleUndo_def Let_def split: option.splits)
  then show ?thesis using Undo by simp
next
  case Redo
  have "urls_owned (after (handleRedo (rendered \<sigma>) (current \<sigma>)))"
    by (rule urls_owned_cong [OF assms])
      (simp_all add: handleRedo_def Let_def split: option.splits)
  then show ?thesis using Redo by simp
next
  case Reset
  have "urls_owned (handleReset (current \<sigma>))"
    by (rule urls_owned_cong [OF assms]) (simp_all add: handleReset_def)
  then show ?thesis using Reset by simp
next
  case (PromptChange p)
  have "urls_owned ((current \<sigma>)\<lparr>prompt := p\<rparr>)"
    by (rule urls_owned_cong [OF assms]) simp_all
  then show ?thesis using PromptChange by simp
next
  case GenerateClick
  have "urls_owned (handleGenerateClick (rendered \<sigma>) (current \<sigma>))"
    by (rule urls_owned_cong [OF assms]) (simp_all add: handleGenerateClick_def)
  then show ?thesis using GenerateClick by simp
next
  case (ZoomButton q)
  have "urls_owned (setZoomLevel (scale (zoom (rendered \<sigma>)) + q) (current \<sigma>))"
    by (rule urls_owned_cong [OF assms]) (simp_all add: setZoomLevel_def Let_def)
  then show ?thesis using ZoomButton by (simp add: handleZoomButtons_def)
next
  case (ZoomSlider q)
  have "urls_owned (setZoomLevel q (current \<sigma>))"
    by (rule urls_owned_cong [OF assms]) (simp_all add: setZoomLevel_def Let_def)
  then show ?thesis using ZoomSlider by (simp add: handleScaleChange_def)
next
  case ZoomReset
  have "urls_owned ((current \<sigma>)\<lparr>zoom := \<lparr>scale = 1, pan_x = 0, pan_y = 0\<rparr>\<rparr>)"
    by (rule urls_owned_cong [OF assms]) simp_all
  then show ?thesis using ZoomReset by simp
next
  case (Wheel q)
  have "urls_owned (handleWheel q (rendered \<sigma>) (current \<sigma>))"
    by (rule urls_owned_cong [OF assms]) (simp_all add: handleWheel_def setZoomLevel_def Let_def)
  then show ?thesis using Wheel by simp
next
  case (MouseDown cx cy b)
  have "urls_owned (handleMouseDown cx cy b (rendered \<sigma>) (current \<sigma>))"
    by (rule urls_owned_cong [OF assms]) (simp_all add: handleMouseDown_def)
  then show ?thesis using MouseDown by simp
next
  case (MouseMove cx cy)
  have "urls_owned (mousemove_listeners cx cy (current \<sigma>))"
    by (rule urls_owned_cong [OF assms]) (simp_all add: mousemove_listeners_def)
  then show ?thesis using MouseMove by simp
next
  case MouseUp
  have "urls_owned (mouseup_listeners (current \<sigma>))"
    by (rule urls_owned_cong [OF assms]) (simp_all add: mouseup_listeners_def handleMouseUp_def)
  then show ?thesis using MouseUp by simp
next
  case Render
  then show ?thesis using assms by simp
qed

lemma urls_owned_run: "urls_owned (current \<sigma>) \<Longrightarrow> urls_owned (current (run evs \<sigma>))"
  by (induction evs arbitrary: \<sigma>) (simp_all del: step.simps add: urls_owned_step)

lemma urls_owned_initial: "urls_owned initial"
  by (simp add: urls_owned_def initial_def)

lemma no_pending_onload_no_live_url:
  "objectUrls (current (run evs start)) = set (pending_urls (pending (current (run evs start))))"
proof -
  have "urls_owned (current start)"
    by (simp add: start_def urls_owned_initial)
  then have "urls_owned (current (run evs start))"
    by (rule urls_owned_run)
  then show ?thesis
    by (simp add: urls_owned_def)
qed

lemma applyFilterToCanvas_posterize:
  "applyFilterToCanvas drawImage fillRect (str ''posterize'') = posterize (drawImage (str ''none''))"
  by (simp add: applyFilterToCanvas_def cssFilter_def)


section \<open>Claims\<close>

text \<open>
  C1. The history is a linear list. Let the render that handles the click show history
  \<open>h\<close> and index \<open>i\<close>, \<open>0 \<le> i \<le> length h - 1\<close>, an uploaded image and another
  active filter, and let a canvas context be at hand. Then a click on the filter
  registers one \<open>onload\<close> callback that captured \<open>h\<close> and \<open>i\<close>.
  Whenever that callback runs, in whatever state \<open>t\<close>, it sets the history to the first
  \<open>i + 1\<close> entries of \<open>h\<close> followed by the new pair of snapshot and filter name, and the
  index to the last position of that list; run right after the click, the index is
  \<open>i + 1\<close>. No entry behind \<open>i\<close> survives. For a render that shows the state as it
  is, \<open>r = s\<close>, \<open>h\<close> and \<open>i\<close> are the history and the index of the state.
\<close>

theorem handleFilterClick_truncates_and_appends:
  assumes "baseImage r \<noteq> None" and "activeFilter r \<noteq> f"
    and "0 \<le> historyIndex r" and "historyIndex r \<le> int (length (history r)) - 1"
  shows "pending (handleFilterClick f True r s)
           = pending s @ [FilterOnload f (history r) (historyIndex r) (nextUrl s)]
    \<and> history (handleFilterClick_onload f (history r) (historyIndex r) u dataUrl t)
           = take (nat (historyIndex r) + 1) (history r)
             @ [\<lparr>imageUrl = dataUrl, filter_name = f\<rparr>]
    \<and> historyIndex (handleFilterClick_onload f (history r) (historyIndex r) u dataUrl t)
           = int (length (take (nat (historyIndex r) + 1) (history r)
                           @ [\<lparr>imageUrl = dataUrl, filter_name = f\<rparr>])) - 1
    \<and> history (current (run [FilterClick f True, ImageLoaded (length (pending s)) dataUrl]
                           \<lparr>rendered = r, current = s\<rparr>))
           = take (nat (historyIndex r) + 1) (history r)
             @ [\<lparr>imageUrl = dataUrl, filter_name = f\<rparr>]
    \<and> historyIndex (current (run [FilterClick f True, ImageLoaded (length (pending s)) dataUrl]
                                \<lparr>rendered = r, current = s\<rparr>))
           = historyIndex r + 1"
proof -
  have c: "handleFilterClick f True r s =
     s\<lparr>objectUrls := insert (nextUrl s) (objectUrls s), nextUrl := nextUrl s + 1,
       activeFilter := f, zoom := zoom_reset,
       pending := pending s @ [FilterOnload f (history r) (historyIndex r) (nextUrl s)]\<rparr>"
    using assms(1,2) by (rule handleFilterClick_effective)
  have sl: "slice0 (history r) (historyIndex r + 1) = take (nat (historyIndex r) + 1) (history r)"
    using assms(3,4) by (rule slice0_in_range)
  have len: "int (length (take (nat (historyIndex r) + 1) (history r))) = historyIndex r + 1"
    using assms(3,4) by simp
  show ?thesis
    using sl len
    by (simp add: c image_loaded_def remove_pending_def handleFilterClick_onload_def
        revokeObjectURL_def Let_def)
qed

theorem handleFilterClick_truncates_and_appends_witness:
  "baseImage undone_twice \<noteq> None \<and> activeFilter undone_twice \<noteq> str ''invert''
   \<and> 0 \<le> historyIndex undone_twice
   \<and> historyIndex undone_twice \<le> int (length (history undone_twice)) - 1
   \<and> history (current (run [FilterClick (str ''invert'') True, ImageLoaded 0 (str ''url3'')]
         \<lparr>rendered = undone_twice, current = undone_twice\<rparr>))
       = [\<lparr>imageUrl = str ''url0'', filter_name = str ''none''\<rparr>,
          \<lparr>imageUrl = str ''url3'', filter_name = str ''invert''\<rparr>]
   \<and> historyIndex (current (run [FilterClick (str ''invert'') True, ImageLoaded 0 (str ''url3'')]
         \<lparr>rendered = undone_twice, current = undone_twice\<rparr>)) = 1"
proof -
  have h: "baseImage undone_twice \<noteq> None" "activeFilter undone_twice \<noteq> str ''invert''"
    "0 \<le> historyIndex undone_twice"
    "historyIndex undone_twice \<le> int (length (history undone_twice)) - 1"
    by (simp_all add: undone_twice_eq three_entries_def)
  have p: "length (pending undone_twice) = 0" "historyIndex undone_twice = 0"
    "history undone_twice = three_entries"
    by (simp_all add: undone_twice_eq)
  show ?thesis
    using h handleFilterClick_truncates_and_appends [OF h, of undone_twice 0 "str ''url3''"
        undone_twice]
    by (simp add: p three_entries_def)
qed

text \<open>
  C2. The posterize filter quantizes each pixel of the image buffer: with
  \<open>levels = 4\<close> and \<open>step = 255 / (levels - 1)\<close>, every red, green and blue byte
  (the indices that are not 3 modulo 4) is replaced by
  \<open>Math.round(channel / step) * step\<close>, which is stored without clamping or rounding
  taking effect, and every alpha byte (index 3 modulo 4) is left unchanged. The buffer
  keeps its length.
\<close>

theorem posterize_quantizes_rgb_keeps_alpha:
  assumes "j < length buf"
  shows "length (posterize buf) = length buf
    \<and> (j mod 4 = 3 \<longrightarrow> posterize buf ! j = buf ! j)
    \<and> (j mod 4 \<noteq> 3 \<longrightarrow>
         posterize buf ! j
           = ToUint8Clamp (of_int (js_round (of_nat (unat (buf ! j)) / step_size)) * step_size)
       \<and> rat_of_nat (unat (posterize buf ! j))
           = of_int (js_round (of_nat (unat (buf ! j)) / step_size)) * step_size)"
proof -
  have n: "posterize buf ! j = (if j mod 4 \<noteq> 3 then quantize (buf ! j) else buf ! j)"
    using assms by (simp add: posterize_def posterize_loop_nth)
  have l: "length (posterize buf) = length buf"
    by (simp add: posterize_def)
  show ?thesis
    using n l quantize_exact [of "buf ! j"] by (simp add: quantize_def)
qed

theorem posterize_quantizes_rgb_keeps_alpha_witness:
  "(1::nat) < length [10, 100, 200, 77 :: 8 word]
   \<and> posterize [10, 100, 200, 77] ! 1 = 85
   \<and> rat_of_nat (unat (posterize [10, 100, 200, 77] ! 1)) = 85
   \<and> posterize [10, 100, 200, 77] ! 3 = 77"
proof -
  have e: "ToUint8Clamp (of_int (js_round (of_nat (unat (100 :: 8 word)) / step_size)) * step_size)
      = 85"
    by code_simp
  have f: "of_int (js_round (of_nat (unat (100 :: 8 word)) / step_size)) * step_size = (85 :: rat)"
    by code_simp
  show ?thesis
    using posterize_quantizes_rgb_keeps_alpha [of 1 "[10, 100, 200, 77]"]
      posterize_quantizes_rgb_keeps_alpha [of 3 "[10, 100, 200, 77]"] e f
    by simp
qed


text \<open>
  C3. Undo and redo move only the index. handleUndo lowers the index by exactly one
  when it is greater than 0 and otherwise changes nothing; handleRedo raises it by
  exactly one when it is less than \<open>length - 1\<close> and otherwise changes nothing; neither
  touches the history list or its entries. With a valid index neither throws. The
  index and the length that the handlers read are those of their render \<open>r\<close>; for a
  render that shows the state as it is, \<open>r = s\<close>.
\<close>

theorem undo_redo_move_only_the_index:
  "history (after (handleUndo r s)) = history s
   \<and> (0 < historyIndex r \<longrightarrow> historyIndex (after (handleUndo r s)) = historyIndex r - 1)
   \<and> (\<not> 0 < historyIndex r \<longrightarrow> handleUndo r s = Inr s)
   \<and> history (after (handleRedo r s)) = history s
   \<and> (historyIndex r < int (length (history r)) - 1
        \<longrightarrow> historyIndex (after (handleRedo r s)) = historyIndex r + 1)
   \<and> (\<not> historyIndex r < int (length (history r)) - 1 \<longrightarrow> handleRedo r s = Inr s)
   \<and> (- 1 \<le> historyIndex r \<and> historyIndex r \<le> int (length (history r)) - 1
        \<longrightarrow> (\<exists>s'. handleUndo r s = Inr s') \<and> (\<exists>s'. handleRedo r s = Inr s'))"
  using handleUndo_returns [of r s] handleRedo_returns [of r s]
  by (simp add: historyIndex_handleUndo historyIndex_handleRedo handleUndo_blocked
      handleRedo_blocked)

theorem undo_redo_move_only_the_index_witness:
  "\<not> 0 < historyIndex undone_twice \<and> handleUndo undone_twice undone_twice = Inr undone_twice
   \<and> historyIndex undone_twice < int (length (history undone_twice)) - 1
   \<and> historyIndex (after (handleRedo undone_twice undone_twice)) = 1
   \<and> history (after (handleRedo undone_twice undone_twice)) = three_entries
   \<and> 0 < historyIndex (after (handleRedo undone_twice undone_twice))
   \<and> historyIndex (after (handleUndo (after (handleRedo undone_twice undone_twice))
                                       (after (handleRedo undone_twice undone_twice)))) = 0
   \<and> history (after (handleUndo (after (handleRedo undone_twice undone_twice))
                                   (after (handleRedo undone_twice undone_twice)))) = three_entries
   \<and> - 1 \<le> historyIndex undone_twice
   \<and> historyIndex undone_twice \<le> int (length (history undone_twice)) - 1"
proof -
  have a: "historyIndex undone_twice = 0" "history undone_twice = three_entries"
    "length three_entries = 3"
    by (simp_all add: undone_twice_eq three_entries_def)
  have b: "historyIndex (after (handleRedo undone_twice undone_twice)) = 1"
    using undo_redo_move_only_the_index [of undone_twice undone_twice] a by simp
  show ?thesis
    using undo_redo_move_only_the_index [of undone_twice undone_twice]
      undo_redo_move_only_the_index [of "after (handleRedo undone_twice undone_twice)"
        "after (handleRedo undone_twice undone_twice)"] a b
    by simp
qed

text \<open>
  C4, at its failing input. setZoomLevel clamps into 1..10 and resets the pan at scale
  1, and every write of the zoom outside a drag keeps the invariant
  (\<open>zoom_invariant_step\<close>); the scale stays in range throughout
  (\<open>scale_in_range_run\<close>). But the mousemove listener of a drag does not look at the
  scale: when the wheel brings the scale back to 1 while the button is held, the next
  move pans the image at scale 1.
\<close>

theorem pan_survives_zoom_out_during_drag:
  "zoom (current (run drag_then_zoom_out start)) = \<lparr>scale = 1, pan_x = D 5, pan_y = 0\<rparr>"
proof -
  have a: "zoom (current (step (Wheel (D 1000)) dragging)) = \<lparr>scale = 1, pan_x = 0, pan_y = 0\<rparr>"
    using double_examples(6,7) double_orders(2)
    by (simp add: dragging_eq handleWheel_def setZoomLevel_def Let_def max_def min_def)
  have b: "lastMousePos (current (step (Wheel (D 1000)) dragging)) = (D 10, D 10)"
    "panListeners (current (step (Wheel (D 1000)) dragging)) = 1"
    by (simp_all add: dragging_eq handleWheel_def setZoomLevel_def Let_def)
  have "zoom (current (step (MouseMove (D 15) (D 10)) (step (Wheel (D 1000)) dragging)))
      = \<lparr>scale = 1, pan_x = D 5, pan_y = 0\<rparr>"
    using a b double_examples(8,9,14,16)
    by (simp add: mousemove_listeners_def handleMouseMove_def Let_def del: step.simps(13))
  then show ?thesis
    unfolding drag_then_zoom_out_eq .
qed

text \<open>
  C5. When the call is made (the render shows an uploaded image, a current snapshot and
  a prompt that is not blank) and anything is thrown before a response is read, the
  handler sets the error to \<open>Failed to generate image. \<close> followed by the message of
  the Error, or by \<open>An unexpected error occurred.\<close> for a value that is no Error,
  clears the loading flag, and leaves the uploaded image, the history, the index and the
  prompt as they were; the same holds in whatever state \<open>t\<close> the rejection arrives, and
  for the TypeError of reading the parts of a malformed response.
\<close>

theorem generate_failure_is_caught:
  assumes "baseImage r \<noteq> None" and "currentImageState r \<noteq> None" and "trim (prompt r) \<noteq> []"
    and "s' = current (run [GenerateClick, GenerateSettled (length (pending s)) (Rejected err)]
                         \<lparr>rendered = r, current = s\<rparr>)"
    and "t' = handleGenerateClick_resume (Rejected err) t"
  shows "error s' = Some (str ''Failed to generate image. ''
            @ (case err of ErrorInstance m \<Rightarrow> m
               | OtherValue \<Rightarrow> str ''An unexpected error occurred.''))
    \<and> isLoading s' = False
    \<and> baseImage s' = baseImage s \<and> history s' = history s
    \<and> historyIndex s' = historyIndex s \<and> prompt s' = prompt s
    \<and> error t' = error s' \<and> isLoading t' = False
    \<and> baseImage t' = baseImage t \<and> history t' = history t
    \<and> historyIndex t' = historyIndex t \<and> prompt t' = prompt t
    \<and> error (handleGenerateClick_resume (NoParts m') t)
         = Some (str ''Failed to generate image. '' @ m')"
  unfolding assms(4,5) run_generate [OF assms(1-3)]
  by (simp add: handleGenerateClick_resume_def catch_block_def errorMessage_def)

theorem generate_failure_is_caught_witness:
  "baseImage prompted \<noteq> None \<and> currentImageState prompted \<noteq> None
   \<and> trim (prompt prompted) \<noteq> []
   \<and> error (current (run [GenerateClick,
        GenerateSettled 0 (Rejected (ErrorInstance (str ''quota'')))]
        \<lparr>rendered = prompted, current = prompted\<rparr>)) = Some (str ''Failed to generate image. quota'')
   \<and> error (current (run [GenerateClick, GenerateSettled 0 (Rejected OtherValue)]
        \<lparr>rendered = prompted, current = prompted\<rparr>))
        = Some (str ''Failed to generate image. An unexpected error occurred.'')
   \<and> history (current (run [GenerateClick, GenerateSettled 0 (Rejected OtherValue)]
        \<lparr>rendered = prompted, current = prompted\<rparr>))
        = three_entries"
proof -
  have p: "length (pending prompted) = 0" "history prompted = three_entries"
    by (simp_all add: prompted_eq)
  let ?\<sigma> = "\<lparr>rendered = prompted, current = prompted\<rparr>"
  note A = generate_failure_is_caught [OF prompted_guard refl refl,
      where err = "ErrorInstance (str ''quota'')" and t = initial and s = prompted]
  note B = generate_failure_is_caught [OF prompted_guard refl refl,
      where err = OtherValue and t = initial and s = prompted]
  have "error (current (run [GenerateClick,
        GenerateSettled 0 (Rejected (ErrorInstance (str ''quota'')))] ?\<sigma>))
        = Some (str ''Failed to generate image. quota'')"
    using A [THEN conjunct1] by (simp add: p str_append)
  moreover have "error (current (run [GenerateClick, GenerateSettled 0 (Rejected OtherValue)] ?\<sigma>))
        = Some (str ''Failed to generate image. An unexpected error occurred.'')"
    using B [THEN conjunct1] by (simp add: p str_append)
  moreover have "history (current (run [GenerateClick, GenerateSettled 0 (Rejected OtherValue)] ?\<sigma>))
        = three_entries"
    using B [THEN conjunct2, THEN conjunct2, THEN conjunct2, THEN conjunct1] by (simp add: p)
  ultimately show ?thesis
    using prompted_guard by simp
qed

text \<open>
  C6. The response parts are scanned from the last to the first. The last part that
  carries inline data is shown, as the data URL \<open>data:<mime type>;base64,<bytes>\<close>,
  and no error is set; when no part carries inline data the edited image stays unset
  and the error is \<open>No image was generated. Please try a different prompt.\<close>. The
  loading flag is cleared either way.
\<close>

theorem generate_shows_last_inline_part:
  assumes "baseImage r \<noteq> None" and "currentImageState r \<noteq> None" and "trim (prompt r) \<noteq> []"
    and "s' = current (run [GenerateClick, GenerateSettled (length (pending s)) (Parts parts)]
                         \<lparr>rendered = r, current = s\<rparr>)"
  shows "(\<forall>j b. j < length parts \<and> inlineData (parts ! j) = Some b
            \<and> (\<forall>k. j < k \<and> k < length parts \<longrightarrow> inlineData (parts ! k) = None)
          \<longrightarrow> editedImageUrl s'
                = Some (str ''data:'' @ template (mimeType b) @ str '';base64,'' @ template (data b))
              \<and> error s' = None)
    \<and> ((\<forall>k<length parts. inlineData (parts ! k) = None)
          \<longrightarrow> editedImageUrl s' = None
              \<and> error s' = Some (str ''No image was generated. Please try a different prompt.''))
    \<and> isLoading s' = False"
proof -
  have s': "s' = handleGenerateClick_resume (Parts parts)
      (s\<lparr>isLoading := True, error := None, editedImageUrl := None\<rparr>)"
    unfolding assms(4) by (rule run_generate [OF assms(1-3)])
  have found: "editedImageUrl s' = Some (data_url b) \<and> error s' = None"
    if "scan_parts parts (length parts) = Some (data_url b)" for b
    using that by (simp add: s' handleGenerateClick_resume_def)
  have missing: "editedImageUrl s' = None
      \<and> error s' = Some (str ''No image was generated. Please try a different prompt.'')"
    if "scan_parts parts (length parts) = None"
    using that by (simp add: s' handleGenerateClick_resume_def)
  have "isLoading s' = False"
    by (simp add: s' handleGenerateClick_resume_def)
  then show ?thesis
    using found [OF scan_parts_last] missing [OF scan_parts_none]
    by (simp add: data_url_def) blast
qed

theorem generate_shows_last_inline_part_witness:
  "baseImage prompted \<noteq> None \<and> currentImageState prompted \<noteq> None
   \<and> trim (prompt prompted) \<noteq> []
   \<and> editedImageUrl (current (run [GenerateClick,
        GenerateSettled 0 (Parts [image_part, text_part, image_part, text_part])]
        \<lparr>rendered = prompted, current = prompted\<rparr>))
        = Some (str ''data:image/png;base64,QUJD'')
   \<and> editedImageUrl (current (run [GenerateClick, GenerateSettled 0 (Parts [text_part])]
        \<lparr>rendered = prompted, current = prompted\<rparr>)) = None
   \<and> error (current (run [GenerateClick, GenerateSettled 0 (Parts [text_part])]
        \<lparr>rendered = prompted, current = prompted\<rparr>))
        = Some (str ''No image was generated. Please try a different prompt.'')"
proof -
  have p: "length (pending prompted) = 0"
    by (simp add: prompted_eq)
  let ?\<sigma> = "\<lparr>rendered = prompted, current = prompted\<rparr>"
  let ?ps = "[image_part, text_part, image_part, text_part]"
  let ?b = "\<lparr>data = Some (str ''QUJD''), mimeType = Some (str ''image/png'')\<rparr>"
  have a: "(2::nat) < length ?ps \<and> inlineData (?ps ! 2) = Some ?b
      \<and> (\<forall>k. 2 < k \<and> k < length ?ps \<longrightarrow> inlineData (?ps ! k) = None)"
  proof -
    have "k = 3" if "2 < k" "k < 4" for k :: nat
      using that by arith
    then show ?thesis
      by (auto simp: image_part_def text_part_def)
  qed
  have b: "\<forall>k<length [text_part]. inlineData ([text_part] ! k) = None"
    by (simp add: text_part_def)
  note A = generate_shows_last_inline_part [OF prompted_guard refl,
      where parts = ?ps and s = prompted]
  note B = generate_shows_last_inline_part [OF prompted_guard refl,
      where parts = "[text_part]" and s = prompted]
  have "editedImageUrl (current (run [GenerateClick, GenerateSettled 0 (Parts ?ps)] ?\<sigma>))
        = Some (str ''data:image/png;base64,QUJD'')"
    using A [THEN conjunct1, THEN spec, THEN spec, THEN mp, of 2 ?b, OF a]
    by (simp add: p template_def str_append)
  moreover have "editedImageUrl (current (run [GenerateClick,
        GenerateSettled 0 (Parts [text_part])] ?\<sigma>)) = None
      \<and> error (current (run [GenerateClick, GenerateSettled 0 (Parts [text_part])] ?\<sigma>))
        = Some (str ''No image was generated. Please try a different prompt.'')"
    using B [THEN conjunct2, THEN conjunct1, THEN mp, OF b]
    by (simp add: p)
  ultimately show ?thesis
    using prompted_guard by simp
qed

text \<open>
  C7. A pan drag starts only when the scale, as the render that handles the mousedown
  shows it, is strictly greater than 1 and the pointer is on the image; then the
  position is recorded, the panning flag set and one pair of listeners added, the view
  transform unchanged. For every mouse move while a listener is registered the pan
  offset changes by exactly \<open>(dx / scale, dy / scale)\<close>, where \<open>(dx, dy)\<close> is the
  displacement from the last recorded position and the scale is the current one, each
  operation rounded as the engine rounds it; the scale itself is unchanged. With no
  listener a move does nothing.
\<close>

theorem pan_drag_arithmetic:
  "(handleMouseDown cx cy onImage r s \<noteq> s \<longrightarrow> 1 < scale (zoom r) \<and> onImage)
   \<and> (1 < scale (zoom r) \<and> onImage \<longrightarrow>
        isPanning (handleMouseDown cx cy onImage r s)
        \<and> panListeners (handleMouseDown cx cy onImage r s) = panListeners s + 1
        \<and> lastMousePos (handleMouseDown cx cy onImage r s) = (cx, cy)
        \<and> zoom (handleMouseDown cx cy onImage r s) = zoom s)
   \<and> (0 < panListeners (current \<sigma>) \<and> scale (zoom (current \<sigma>)) \<noteq> 0 \<longrightarrow>
        zoom (current (step (MouseMove mx my) \<sigma>))
          = \<lparr>scale = scale (zoom (current \<sigma>)),
             pan_x = pan_x (zoom (current \<sigma>))
                       + (mx - fst (lastMousePos (current \<sigma>))) / scale (zoom (current \<sigma>)),
             pan_y = pan_y (zoom (current \<sigma>))
                       + (my - snd (lastMousePos (current \<sigma>))) / scale (zoom (current \<sigma>))\<rparr>
        \<and> lastMousePos (current (step (MouseMove mx my) \<sigma>)) = (mx, my)
        \<and> rendered (step (MouseMove mx my) \<sigma>) = rendered \<sigma>)
   \<and> (panListeners (current \<sigma>) = 0 \<longrightarrow> step (MouseMove mx my) \<sigma> = \<sigma>)"
proof -
  have down: "(handleMouseDown cx cy onImage r s \<noteq> s \<longrightarrow> 1 < scale (zoom r) \<and> onImage)
   \<and> (1 < scale (zoom r) \<and> onImage \<longrightarrow>
        isPanning (handleMouseDown cx cy onImage r s)
        \<and> panListeners (handleMouseDown cx cy onImage r s) = panListeners s + 1
        \<and> lastMousePos (handleMouseDown cx cy onImage r s) = (cx, cy)
        \<and> zoom (handleMouseDown cx cy onImage r s) = zoom s)"
    by (auto simp: handleMouseDown_def)
  have move: "zoom (current (step (MouseMove mx my) \<sigma>))
          = \<lparr>scale = scale (zoom (current \<sigma>)),
             pan_x = pan_x (zoom (current \<sigma>))
                       + (mx - fst (lastMousePos (current \<sigma>))) / scale (zoom (current \<sigma>)),
             pan_y = pan_y (zoom (current \<sigma>))
                       + (my - snd (lastMousePos (current \<sigma>))) / scale (zoom (current \<sigma>))\<rparr>
        \<and> lastMousePos (current (step (MouseMove mx my) \<sigma>)) = (mx, my)
        \<and> rendered (step (MouseMove mx my) \<sigma>) = rendered \<sigma>"
    if "0 < panListeners (current \<sigma>)"
    by (simp add: mousemove_listeners_dragging [OF that] handleMouseMove_def Let_def)
  have idle: "step (MouseMove mx my) \<sigma> = \<sigma>" if "panListeners (current \<sigma>) = 0"
    using that by (simp add: deferred_def mousemove_listeners_idle)
  show ?thesis
    using down move idle by blast
qed

theorem pan_drag_arithmetic_witness:
  "handleMouseDown (D 10) (D 10) True (current zoomed_in) (current zoomed_in) \<noteq> current zoomed_in
   \<and> 1 < scale (zoom (current zoomed_in))
   \<and> panListeners (handleMouseDown (D 10) (D 10) True (current zoomed_in) (current zoomed_in)) = 1
   \<and> 0 < panListeners (current dragging) \<and> scale (zoom (current dragging)) \<noteq> 0
   \<and> zoom (current (step (MouseMove (D 16) (D 13)) dragging))
       = \<lparr>scale = D (6 / 5), pan_x = D 5, pan_y = D (5 / 2)\<rparr>
   \<and> panListeners (current zoomed_in) = 0
   \<and> step (MouseMove (D 16) (D 13)) zoomed_in = zoomed_in"
proof -
  have a: "1 < scale (zoom (current zoomed_in))" "panListeners (current zoomed_in) = 0"
    "handleMouseDown (D 10) (D 10) True (current zoomed_in) (current zoomed_in)
       \<noteq> current zoomed_in"
    using double_examples(1,2) by (simp_all add: zoomed_in_eq handleMouseDown_def)
  have b: "0 < panListeners (current dragging)" "scale (zoom (current dragging)) \<noteq> 0"
    "zoom (current dragging) = \<lparr>scale = D (6 / 5), pan_x = 0, pan_y = 0\<rparr>"
    "lastMousePos (current dragging) = (D 10, D 10)"
    using double_examples(3) by (simp_all add: dragging_eq)
  have c: "0 + (D 16 - D 10) / D (6 / 5) = D 5" "0 + (D 13 - D 10) / D (6 / 5) = D (5 / 2)"
    by (simp_all only: double_examples)
  show ?thesis
    using a b c
      pan_drag_arithmetic [of "D 10" "D 10" True "current zoomed_in" "current zoomed_in"
        zoomed_in "D 16" "D 13"]
      pan_drag_arithmetic [of "D 10" "D 10" True "current zoomed_in" "current zoomed_in"
        dragging "D 16" "D 13"]
    by (simp del: step.simps)
qed

text \<open>
  C8, as amended. In index.tsx (handleImageChange, handleFilterClick) and in the
  filtered-image pipeline of the variant with a filter effect (part_001: the effect and
  getFilteredImageFile), each call that creates an object URL creates exactly one and
  registers one \<open>onload\<close> that carries it, and that \<open>onload\<close>, in whatever state it
  runs, revokes it; run right after the call, it leaves no URL of that call alive. In
  every state reached in index.tsx the live object URLs are exactly those held by the
  pending \<open>onload\<close> callbacks.
\<close>

theorem object_urls_revoked_in_onload:
  "objectUrls (handleImageChange (Some img) True s) = insert (nextUrl s) (objectUrls s)
   \<and> pending (handleImageChange (Some img) True s) = pending s @ [UploadOnload (nextUrl s)]
   \<and> objectUrls (handleImageChange_onload u dataUrl t) = objectUrls t - {u}
   \<and> objectUrls (current (run [ImageChange (Some img) True,
        ImageLoaded (length (pending s)) dataUrl] \<lparr>rendered = r, current = s\<rparr>))
       = objectUrls s - {nextUrl s}
   \<and> (baseImage r \<noteq> None \<and> activeFilter r \<noteq> f \<longrightarrow>
        objectUrls (handleFilterClick f True r s) = insert (nextUrl s) (objectUrls s)
        \<and> pending (handleFilterClick f True r s)
            = pending s @ [FilterOnload f (history r) (historyIndex r) (nextUrl s)]
        \<and> objectUrls (current (run [FilterClick f True,
             ImageLoaded (length (pending s)) dataUrl] \<lparr>rendered = r, current = s\<rparr>))
            = objectUrls s - {nextUrl s})
   \<and> objectUrls (handleFilterClick_onload f h i u dataUrl t) = objectUrls t - {u}
   \<and> (p1_originalImage pr \<noteq> None \<longrightarrow>
        objectUrls (p1_filter_effect True pr p) = insert (nextUrl p) (objectUrls p)
        \<and> p1_pending (p1_filter_effect True pr p) = p1_pending p @ [EffectOnload (nextUrl p)])
   \<and> objectUrls (p1_filter_effect_onload u dataUrl q) = objectUrls q - {u}
   \<and> (p1_originalImage pr \<noteq> None \<and> p1_activeFilter pr \<noteq> str ''none'' \<longrightarrow>
        objectUrls (snd (getFilteredImageFile True pr p)) = insert (nextUrl p) (objectUrls p)
        \<and> p1_pending (snd (getFilteredImageFile True pr p))
            = p1_pending p @ [FilteredOnload (nextUrl p)])
   \<and> objectUrls (getFilteredImageFile_onload u q) = objectUrls q - {u}
   \<and> objectUrls (current (run evs start)) = set (pending_urls (pending (current (run evs start))))"
proof -
  have up: "handleImageChange (Some img) True s =
      s\<lparr>objectUrls := insert (nextUrl s) (objectUrls s), nextUrl := nextUrl s + 1,
        baseImage := Some img, editedImageUrl := None, error := None, zoom := zoom_reset,
        pending := pending s @ [UploadOnload (nextUrl s)]\<rparr>"
    by (simp add: handleImageChange_def createObjectURL_def Let_def)
  have a: "objectUrls (handleImageChange (Some img) True s) = insert (nextUrl s) (objectUrls s)
   \<and> pending (handleImageChange (Some img) True s) = pending s @ [UploadOnload (nextUrl s)]
   \<and> objectUrls (handleImageChange_onload u dataUrl t) = objectUrls t - {u}
   \<and> objectUrls (current (run [ImageChange (Some img) True,
        ImageLoaded (length (pending s)) dataUrl] \<lparr>rendered = r, current = s\<rparr>))
       = objectUrls s - {nextUrl s}"
    by (simp add: up image_loaded_def remove_pending_def handleImageChange_onload_def
        revokeObjectURL_def)
  have b: "objectUrls (handleFilterClick f True r s) = insert (nextUrl s) (objectUrls s)
        \<and> pending (handleFilterClick f True r s)
            = pending s @ [FilterOnload f (history r) (historyIndex r) (nextUrl s)]
        \<and> objectUrls (current (run [FilterClick f True,
             ImageLoaded (length (pending s)) dataUrl] \<lparr>rendered = r, current = s\<rparr>))
            = objectUrls s - {nextUrl s}"
    if "baseImage r \<noteq> None" "activeFilter r \<noteq> f"
    by (simp add: handleFilterClick_effective [OF that] image_loaded_def remove_pending_def
        handleFilterClick_onload_def revokeObjectURL_def Let_def)
  have c: "objectUrls (handleFilterClick_onload f h i u dataUrl t) = objectUrls t - {u}"
    by (simp add: handleFilterClick_onload_def revokeObjectURL_def Let_def)
  have d: "objectUrls (p1_filter_effect True pr p) = insert (nextUrl p) (objectUrls p)
        \<and> p1_pending (p1_filter_effect True pr p) = p1_pending p @ [EffectOnload (nextUrl p)]"
    if "p1_originalImage pr \<noteq> None"
    using that by (auto simp: p1_filter_effect_def createObjectURL_def)
  have e: "objectUrls (p1_filter_effect_onload u dataUrl q) = objectUrls q - {u}"
    by (simp add: p1_filter_effect_onload_def revokeObjectURL_def)
  have g: "objectUrls (snd (getFilteredImageFile True pr p)) = insert (nextUrl p) (objectUrls p)
        \<and> p1_pending (snd (getFilteredImageFile True pr p))
            = p1_pending p @ [FilteredOnload (nextUrl p)]"
    if "p1_originalImage pr \<noteq> None" "p1_activeFilter pr \<noteq> str ''none''"
    using that by (auto simp: getFilteredImageFile_def createObjectURL_def)
  have h: "objectUrls (getFilteredImageFile_onload u q) = objectUrls q - {u}"
    by (simp add: getFilteredImageFile_onload_def revokeObjectURL_def)
  have i: "objectUrls (current (run evs start))
      = set (pending_urls (pending (current (run evs start))))"
    by (rule no_pending_onload_no_live_url)
  show ?thesis
    using a b c d e g h i by blast
qed

theorem object_urls_revoked_in_onload_witness:
  "baseImage undone_twice \<noteq> None \<and> activeFilter undone_twice \<noteq> str ''sepia''
   \<and> objectUrls (handleFilterClick (str ''sepia'') True undone_twice undone_twice) = {3}
   \<and> objectUrls (current (run [FilterClick (str ''sepia'') True, ImageLoaded 0 (str ''url3'')]
        \<lparr>rendered = undone_twice, current = undone_twice\<rparr>)) = {}
   \<and> objectUrls (handleImageChange (Some photo) True undone_twice) = {3}
   \<and> objectUrls (current (run [ImageChange (Some photo) True, ImageLoaded 0 (str ''url3'')]
        \<lparr>rendered = undone_twice, current = undone_twice\<rparr>)) = {}
   \<and> p1_originalImage p1_example \<noteq> None \<and> p1_activeFilter p1_example \<noteq> str ''none''
   \<and> objectUrls (p1_filter_effect True p1_example p1_example) = {0}
   \<and> objectUrls (p1_filter_effect_onload 0 (str ''url3'')
        (p1_filter_effect True p1_example p1_example)) = {}
   \<and> objectUrls (snd (getFilteredImageFile True p1_example p1_example)) = {0}
   \<and> objectUrls (getFilteredImageFile_onload 0
        (snd (getFilteredImageFile True p1_example p1_example))) = {}"
proof -
  have a: "baseImage undone_twice \<noteq> None" "activeFilter undone_twice \<noteq> str ''sepia''"
    "objectUrls undone_twice = {}" "nextUrl undone_twice = 3" "length (pending undone_twice) = 0"
    by (simp_all add: undone_twice_eq)
  have b: "p1_originalImage p1_example \<noteq> None" "p1_activeFilter p1_example \<noteq> str ''none''"
    "objectUrls p1_example = {}" "nextUrl p1_example = 0"
    by (simp_all add: p1_example_def)
  note T = object_urls_revoked_in_onload [where s = undone_twice and r = undone_twice
      and f = "str ''sepia''" and img = photo and dataUrl = "str ''url3''"
      and p = p1_example and pr = p1_example and u = 0]
  note U = T [where q = "p1_filter_effect True p1_example p1_example" and t = initial]
  note V = T [where q = "snd (getFilteredImageFile True p1_example p1_example)" and t = initial]
  show ?thesis
    using a b U V by (simp del: step.simps)
qed

text \<open>
  C8, as stated, fails in the variant without filters: the object URL of an upload is
  kept as the displayed source and is still alive after the image has been replaced.
\<close>

theorem plain_variant_upload_url_never_revoked:
  "objectUrls (current (p2_run p2_replaced (synced p2_initial))) = {0, 1}
   \<and> p2_originalImageUrl (current (p2_run p2_replaced (synced p2_initial))) = Some 1"
  by (simp add: p2_replaced_def p2_initial_def p2_handleImageChange_def
      p2_handleGenerateClick_def p2_generate_settled_def p2_handleGenerateClick_resume_def
      createObjectURL_def image_part_def data_url_def template_def trim_def isWhiteSpace_def
      photo_def Let_def insert_commute)

text \<open>
  C9, at its failing input. An event that is handled by an up-to-date render keeps the
  index valid (\<open>valid_step_rendered\<close>, \<open>valid_run_rendered\<close>), and every event but
  Undo and Redo keeps it valid whatever the render shows (\<open>valid_step_other\<close>). But
  handleUndo and handleRedo take the index and the history of their render and write
  the new index as a value: a click on Redo that arrives when the \<open>onload\<close> of a second
  upload has run and is not rendered yet sets the index to 1 in a history of one entry,
  and \<open>history[historyIndex]\<close> is undefined.
\<close>

theorem redo_on_stale_render_breaks_history_index:
  "history (current (run stale_redo start))
     = [\<lparr>imageUrl = str ''url2'', filter_name = str ''none''\<rparr>]
   \<and> historyIndex (current (run stale_redo start)) = 1
   \<and> currentImageState (current (run stale_redo start)) = None
   \<and> canRedo (rendered (run (butlast stale_redo) start))
   \<and> history (current (run (butlast stale_redo) start))
     = [\<lparr>imageUrl = str ''url2'', filter_name = str ''none''\<rparr>]
   \<and> historyIndex (current (run (butlast stale_redo) start)) = 0"
  by (simp add: stale_redo_def initial_def handler_defs Let_def)



end
